(* ===== verification/Distq_Prelude.thy ===== *)
theory Distq_Prelude
  imports Main "HOL-Library.Word"
begin

text \<open>
  Shared vocabulary of the development: the integer ranges of Go and PostgreSQL, Go error
  values, what a database call may meet (a fault, the clock, rows locked by others), the
  tables as lists of rows with a primary key, and the generic lemmas on keyed rows that
  every statement of the store rests on.
\<close>

named_theorems sql_defs \<open>definitions of the SQL statements\<close>
named_theorems store_defs \<open>definitions of the store's Go methods\<close>

section \<open>Machine integers\<close>

type_synonym int32 = "32 word"
type_synonym ts = int  \<comment> \<open>a timestamp: microseconds since 1970-01-01\<close>
type_synonym dur = int \<comment> \<open>a \<open>time.Duration\<close>: nanoseconds\<close>

definition fits32 :: "int \<Rightarrow> bool" where
  "fits32 x \<longleftrightarrow> - (2 ^ 31) \<le> x \<and> x < 2 ^ 31"

definition fits64 :: "int \<Rightarrow> bool" where
  "fits64 x \<longleftrightarrow> - (2 ^ 63) \<le> x \<and> x < 2 ^ 63"

text \<open>Go's integer division truncates towards zero.\<close>

definition go_div :: "int \<Rightarrow> int \<Rightarrow> int" where
  "go_div a b = sgn a * sgn b * (\<bar>a\<bar> div \<bar>b\<bar>)"

lemma go_div_nonneg: "0 \<le> a \<Longrightarrow> 0 < b \<Longrightarrow> go_div a b = a div b"
  by (cases "a = 0") (auto simp: go_div_def)

lemma fits32_sint [simp]: "fits32 (sint (w :: int32))"
  using sint_range_size [of w] by (simp add: fits32_def word_size)

lemma sint_of_fits32: "fits32 x \<Longrightarrow> sint (word_of_int x :: int32) = x"
  by (simp add: fits32_def sint_sbintrunc' signed_take_bit_int_eq_self_iff del: of_int_sint)

definition nanosecond :: dur where "nanosecond = 1"
definition microsecond :: dur where "microsecond = 1000"
definition millisecond :: dur where "millisecond = 1000000"
definition second :: dur where "second = 1000000000"

lemmas dur_defs = nanosecond_def microsecond_def millisecond_def second_def

section \<open>Errors\<close>

text \<open>
  The errors PostgreSQL reports for the statements of this program, and Go error values:
  the sentinel \<open>ErrLeaseLost\<close>, an error of the database, an error of the driver or the
  connection, a plain text, and the wrapping of \<open>fmt.Errorf("...: %w", err)\<close>.
\<close>

datatype sql_error = UniqueViolation | IntegerOutOfRange | TimestampOutOfRange

datatype goerror =
    ErrLeaseLost
  | PgError sql_error
  | DriverError string
  | ErrText string
  | Wrap string goerror

text \<open>\<open>err.Error()\<close>; the text of a database error is the driver's own.\<close>

fun errorString :: "(sql_error \<Rightarrow> string) \<Rightarrow> goerror \<Rightarrow> string" where
  "errorString msg ErrLeaseLost = ''job lease lost or expired''"
| "errorString msg (PgError e) = msg e"
| "errorString msg (DriverError m) = m"
| "errorString msg (ErrText m) = m"
| "errorString msg (Wrap p e) = p @ '': '' @ errorString msg e"

fun errors_Is :: "goerror \<Rightarrow> goerror \<Rightarrow> bool" where
  "errors_Is (Wrap p e) t \<longleftrightarrow> Wrap p e = t \<or> errors_Is e t"
| "errors_Is e t \<longleftrightarrow> e = t"

lemma errorString_Wrap_nonempty [simp]: "errorString msg (Wrap p e) \<noteq> []"
  by simp

section \<open>Database calls\<close>

text \<open>
  What one database call may meet: nothing, a failure that the caller sees as an error
  (the statement took effect or it did not: a connection may break after the commit), or
  a statement that ran and whose affected-row count the driver then failed to report.
\<close>

datatype fault = NoFault | Fault bool string | RowsFault string

text \<open>
  A call: its fault, the transaction's \<open>CURRENT_TIMESTAMP\<close>, and the ids of the rows
  other transactions hold locked at that moment (what \<open>SKIP LOCKED\<close> passes over).
\<close>

record db_call =
  flt :: fault
  now :: ts
  locked :: "string list"

text \<open>
  A statement either fails and leaves the database as it was, or returns the new database
  and its result. \<open>exec\<close> runs it under a call.
\<close>

type_synonym ('d, 'r) stmt = "'d \<Rightarrow> sql_error + 'd \<times> 'r"

definition stmt_state :: "('d, 'r) stmt \<Rightarrow> 'd \<Rightarrow> 'd" where
  "stmt_state st d = (case st d of Inl _ \<Rightarrow> d | Inr (d', _) \<Rightarrow> d')"

definition stmt_result :: "('d, 'r) stmt \<Rightarrow> 'd \<Rightarrow> goerror + 'r" where
  "stmt_result st d = (case st d of Inl e \<Rightarrow> Inl (PgError e) | Inr (_, r) \<Rightarrow> Inr r)"

definition exec :: "db_call \<Rightarrow> ('d, 'r) stmt \<Rightarrow> 'd \<Rightarrow> 'd \<times> (goerror + 'r)" where
  "exec c st d = (case flt c of
      Fault applied m \<Rightarrow> (if applied then stmt_state st d else d, Inl (DriverError m))
    | _ \<Rightarrow> (stmt_state st d, stmt_result st d))"

lemma exec_state: "fst (exec c st d) = d \<or> fst (exec c st d) = stmt_state st d"
  by (simp add: exec_def split: fault.split)

lemma exec_preserves:
  "P d \<Longrightarrow> P (stmt_state st d) \<Longrightarrow> P (fst (exec c st d))"
  using exec_state [of c st d] by auto

lemma exec_ok: "flt c = NoFault \<Longrightarrow> exec c st d = (stmt_state st d, stmt_result st d)"
  by (simp add: exec_def)

section \<open>Tables\<close>

text \<open>
  A table is a list of rows; \<open>update_where\<close> is \<open>UPDATE ... SET f WHERE P\<close>: it computes every
  new row first (an expression that raises aborts the statement) and also returns the
  updated rows, which is what \<open>RETURNING\<close> and the affected-row count see.
\<close>

fun update_where ::
  "('r \<Rightarrow> bool) \<Rightarrow> ('r \<Rightarrow> sql_error + 'r) \<Rightarrow> 'r list \<Rightarrow> sql_error + 'r list \<times> 'r list" where
  "update_where P f [] = Inr ([], [])"
| "update_where P f (r # rs) =
     (case (if P r then f r else Inr r) of
        Inl e \<Rightarrow> Inl e
      | Inr r' \<Rightarrow> (case update_where P f rs of
            Inl e \<Rightarrow> Inl e
          | Inr (rs', us) \<Rightarrow> Inr (r' # rs', if P r then r' # us else us)))"

definition row_of :: "('r \<Rightarrow> 'k) \<Rightarrow> 'r list \<Rightarrow> 'k \<Rightarrow> 'r option" where
  "row_of key rows k = List.find (\<lambda>r. key r = k) rows"

lemma row_of_Nil [simp]: "row_of key [] k = None"
  by (simp add: row_of_def)

lemma row_of_Cons [simp]:
  "row_of key (r # rs) k = (if key r = k then Some r else row_of key rs k)"
  by (simp add: row_of_def)

lemma row_of_append:
  "row_of key (rs @ ss) k = (case row_of key rs k of None \<Rightarrow> row_of key ss k | Some r \<Rightarrow> Some r)"
  by (induction rs) auto

lemma row_of_SomeD: "row_of key rs k = Some r \<Longrightarrow> r \<in> set rs \<and> key r = k"
  by (induction rs) (auto split: if_splits)

lemma row_of_None_iff: "row_of key rs k = None \<longleftrightarrow> k \<notin> key ` set rs"
  by (induction rs) auto

lemma row_of_in: "distinct (map key rs) \<Longrightarrow> r \<in> set rs \<Longrightarrow> row_of key rs (key r) = Some r"
  by (induction rs) (auto simp: rev_image_eqI)

text \<open>The row an update leaves in place of \<open>r\<close> when the statement succeeds.\<close>

definition upd_row :: "('r \<Rightarrow> bool) \<Rightarrow> ('r \<Rightarrow> sql_error + 'r) \<Rightarrow> 'r \<Rightarrow> 'r" where
  "upd_row P f r = (if P r then projr (f r) else r)"

lemma update_where_eq:
  "update_where P f rs = Inr (rs', us) \<Longrightarrow>
     rs' = map (upd_row P f) rs \<and> us = map (projr \<circ> f) (filter P rs)
     \<and> (\<forall>r \<in> set rs. P r \<longrightarrow> \<not> isl (f r))"
proof (induction rs arbitrary: rs' us)
  case Nil
  then show ?case by simp
next
  case (Cons r rs)
  then obtain rs1 us1 where "update_where P f rs = Inr (rs1, us1)"
    by (auto split: sum.splits)
  from Cons.IH [OF this] this Cons.prems show ?case
    by (auto simp: upd_row_def split: sum.splits if_splits)
qed

lemma update_where_total:
  "\<forall>r \<in> set rs. P r \<longrightarrow> \<not> isl (f r) \<Longrightarrow>
     update_where P f rs = Inr (map (upd_row P f) rs, map (projr \<circ> f) (filter P rs))"
  by (induction rs) (auto simp: upd_row_def isl_def split: sum.splits)

lemma update_where_none:
  "\<forall>r \<in> set rs. \<not> P r \<Longrightarrow> update_where P f rs = Inr (rs, [])"
  by (induction rs) auto

lemma update_where_error:
  "update_where P f rs = Inl e \<Longrightarrow> \<exists>r \<in> set rs. P r \<and> f r = Inl e"
  by (induction rs) (auto split: sum.splits if_splits)

section \<open>Statements that keep the primary key\<close>

text \<open>
  Every \<open>UPDATE\<close> of this program leaves the primary key alone. What follows from that alone
  is proved once here: the keys of the table do not change, and looking a row up after the
  statement is looking it up before and updating it.
\<close>

locale keyed_update =
  fixes key :: "'r \<Rightarrow> 'k"
    and guard :: "'r \<Rightarrow> bool"
    and set_row :: "'r \<Rightarrow> sql_error + 'r"
  assumes key_kept: "set_row r = Inr r' \<Longrightarrow> key r' = key r"
begin

lemma keys_kept: "update_where guard set_row rs = Inr (rs', us) \<Longrightarrow> map key rs' = map key rs"
proof (induction rs arbitrary: rs' us)
  case Nil
  then show ?case by simp
next
  case (Cons r rs)
  then show ?case
    by (auto split: sum.splits if_splits dest: key_kept)
qed

lemma lookup_after:
  "update_where guard set_row rs = Inr (rs', us) \<Longrightarrow>
     row_of key rs' k = map_option (upd_row guard set_row) (row_of key rs k)"
proof (induction rs arbitrary: rs' us)
  case Nil
  then show ?case by simp
next
  case (Cons r rs)
  then show ?case
    by (auto simp: upd_row_def split: sum.splits if_splits dest: key_kept)
qed

lemma lookup_cases:
  assumes "update_where guard set_row rs = Inr (rs', us)"
  obtains (same) "row_of key rs' k = row_of key rs k"
    | (changed) r r' where "row_of key rs k = Some r" "guard r" "set_row r = Inr r'"
        "row_of key rs' k = Some r'"
proof (cases "row_of key rs k")
  case None
  then show thesis using lookup_after [OF assms] by (intro same) simp
next
  case (Some r)
  show thesis
  proof (cases "guard r")
    case True
    from Some have "r \<in> set rs" by (auto dest: row_of_SomeD)
    with True update_where_eq [OF assms] obtain r' where "set_row r = Inr r'"
      by (cases "set_row r") auto
    with True Some lookup_after [OF assms] show thesis
      by (intro changed [of r r']) (auto simp: upd_row_def)
  next
    case False
    with Some lookup_after [OF assms] show thesis
      by (intro same) (simp add: upd_row_def)
  qed
qed

lemma distinct_kept:
  "update_where guard set_row rs = Inr (rs', us) \<Longrightarrow> distinct (map key rs) \<Longrightarrow>
     distinct (map key rs')"
  by (simp add: keys_kept)

end

end
