(* ===== verification/Wire.thy ===== *)
theory Wire
  imports Distq_Prelude
begin

text \<open>
  The messages of \<open>api/proto/distq.proto\<close> as their Go bindings in \<open>internal/pb\<close> present them
  to the program: structs as records, the two \<open>oneof\<close>s as datatypes whose \<open>Unset\<close> value is a
  message with no field set, and the getters, which read a nil message as empty. A byte
  string and a string are both \<^typ>\<open>string\<close>, and a nil byte slice is the empty one.
\<close>

section \<open>Jobs and the Enqueue call\<close>

record Job =
  job_Id :: string
  job_Type :: string
  job_Payload :: string
  job_Status :: string
  job_Error :: string
  job_RetryCount :: int32
  job_MaxRetries :: int32

record EnqueueRequest =
  req_Job :: "Job option"

record EnqueueResponse =
  resp_JobId :: string
  resp_Error :: string

definition EnqueueRequest_GetJob :: "EnqueueRequest option \<Rightarrow> Job option" where
  "EnqueueRequest_GetJob x = (case x of Some r \<Rightarrow> req_Job r | None \<Rightarrow> None)"

section \<open>What a worker sends\<close>

record Hello =
  hello_WorkerId :: string

record Heartbeat =
  beat_JobId :: string

record Completed =
  completed_JobId :: string

record Failed =
  failed_JobId :: string
  failed_ErrorMessage :: string

datatype WorkerMessage =
    WorkerMessage_Unset
  | WorkerMessage_Hello Hello
  | WorkerMessage_Heartbeat Heartbeat
  | WorkerMessage_Completed Completed
  | WorkerMessage_Failed Failed

definition GetHello :: "WorkerMessage \<Rightarrow> Hello option" where
  "GetHello x = (case x of WorkerMessage_Hello h \<Rightarrow> Some h | _ \<Rightarrow> None)"

definition GetWorkerId :: "Hello option \<Rightarrow> string" where
  "GetWorkerId x = (case x of Some h \<Rightarrow> hello_WorkerId h | None \<Rightarrow> '''')"

section \<open>What the server sends\<close>

datatype Outcome =
    OUTCOME_UNSPECIFIED
  | OUTCOME_ACCEPTED
  | OUTCOME_REFUSED
  | OUTCOME_RETRYING
  | OUTCOME_DEAD_LETTERED

record Assigned =
  assigned_Job :: "Job option"
  assigned_LeaseSeconds :: int32

record Result =
  result_JobId :: string
  result_Outcome :: Outcome
  result_Error :: string

record Lost =
  lost_JobId :: string

datatype ServerMessage =
    ServerMessage_Unset
  | ServerMessage_Assigned Assigned
  | ServerMessage_Result Result
  | ServerMessage_Lost Lost

end
