(* ===== verification/Store_Rows.thy ===== *)
theory Store_Rows
  imports Wire
begin

text \<open>
  The two tables of \<open>internal/storage/postgres.go\<close> and what the store takes from outside the
  repository. A row of \<open>jobs\<close> has the columns of the schema and its migrations, \<open>NULL\<close> being
  \<^const>\<open>None\<close>; \<open>leadership\<close> is the one row its \<open>CHECK\<close> allows.
\<close>

section \<open>Rows\<close>

record job_row =
  jr_id :: string
  jr_type :: string
  jr_payload :: string
  jr_state :: string
  jr_retry_count :: int
  jr_max_retries :: int
  jr_last_error :: "string option"
  jr_created_at :: ts
  jr_started_at :: "ts option"
  jr_done_at :: "ts option"
  jr_next_run_at :: "ts option"
  jr_worker_id :: string
  jr_lease_expires_at :: "ts option"
  jr_claim_term :: int

record leadership_row =
  lr_leader_id :: string
  lr_term :: int
  lr_lease_expires_at :: ts

record db =
  jobs :: "job_row list"
  leadership :: leadership_row

abbreviation job_of :: "db \<Rightarrow> string \<Rightarrow> job_row option" where
  "job_of d \<equiv> row_of jr_id (jobs d)"

text \<open>A comparison with \<open>NULL\<close> is not true.\<close>

definition sql_le :: "ts option \<Rightarrow> ts \<Rightarrow> bool" where
  "sql_le x t = (case x of None \<Rightarrow> False | Some v \<Rightarrow> v \<le> t)"

definition sql_lt :: "ts option \<Rightarrow> ts \<Rightarrow> bool" where
  "sql_lt x t = (case x of None \<Rightarrow> False | Some v \<Rightarrow> v < t)"

lemma sql_le_simps [simp]: "sql_le None t = False" "sql_le (Some v) t = (v \<le> t)"
  by (simp_all add: sql_le_def)

lemma sql_lt_simps [simp]: "sql_lt None t = False" "sql_lt (Some v) t = (v < t)"
  by (simp_all add: sql_lt_def)

lemma sql_le_iff: "sql_le x t \<longleftrightarrow> (\<exists>v. x = Some v \<and> v \<le> t)"
  by (cases x) auto

lemma sql_lt_iff: "sql_lt x t \<longleftrightarrow> (\<exists>v. x = Some v \<and> v < t)"
  by (cases x) auto

section \<open>What the database engine decides\<close>

text \<open>
  The repository holds the SQL text, not the engine. Four things are left to the engine, its
  driver and the platform, and are a parameter of every operation that meets them:
  which of several matching rows a \<open>LIMIT 1\<close> without \<open>ORDER BY\<close> returns; whether
  \<open>timestamp + interval\<close> (interval in microseconds) is in range; the result of a Go
  conversion of an out-of-range floating-point number to an integer; and the text of an
  error.
\<close>

record engine =
  pick :: "(job_row \<Rightarrow> bool) \<Rightarrow> job_row list \<Rightarrow> job_row option"
  ts_add :: "ts \<Rightarrow> int \<Rightarrow> ts option"
  float_ovf :: "int \<Rightarrow> int"
  sql_msg :: "sql_error \<Rightarrow> string"

text \<open>The documented range of a timestamp, 4713 BC to 294276 AD.\<close>

definition ts_in_range :: "ts \<Rightarrow> bool" where
  "ts_in_range t \<longleftrightarrow> - 210866803200000000 \<le> t \<and> t < 9224318016000000000"

text \<open>
  What the store relies on: a \<open>SELECT ... LIMIT 1\<close> returns a row that satisfies its condition
  and returns nothing only when there is none; timestamp arithmetic is exact when it
  succeeds, and it succeeds inside the documented ranges.
\<close>

definition pick_ok :: "engine \<Rightarrow> bool" where
  "pick_ok e \<longleftrightarrow> (\<forall>P rs. case pick e P rs of
      None \<Rightarrow> (\<forall>r \<in> set rs. \<not> P r)
    | Some r \<Rightarrow> r \<in> set rs \<and> P r)"

definition ts_add_ok :: "engine \<Rightarrow> bool" where
  "ts_add_ok e \<longleftrightarrow>
     (\<forall>t i t'. ts_add e t i = Some t' \<longrightarrow> t' = t + i) \<and>
     (\<forall>t i. ts_in_range (t + i) \<and> fits64 i \<longrightarrow> ts_add e t i = Some (t + i))"

definition engine_ok :: "engine \<Rightarrow> bool" where
  "engine_ok e \<longleftrightarrow> pick_ok e \<and> ts_add_ok e"

lemma engine_pickD:
  "engine_ok e \<Longrightarrow> pick e P rs = Some r \<Longrightarrow> r \<in> set rs \<and> P r"
  by (auto simp: engine_ok_def pick_ok_def dest!: spec [of _ P] spec [of _ rs])

lemma engine_pick_NoneD:
  "engine_ok e \<Longrightarrow> pick e P rs = None \<Longrightarrow> r \<in> set rs \<Longrightarrow> \<not> P r"
  by (auto simp: engine_ok_def pick_ok_def dest!: spec [of _ P] spec [of _ rs])

lemma engine_ts_addD: "engine_ok e \<Longrightarrow> ts_add e t i = Some t' \<Longrightarrow> t' = t + i"
  unfolding engine_ok_def ts_add_ok_def by blast

lemma engine_ts_add_total:
  "engine_ok e \<Longrightarrow> ts_in_range (t + i) \<Longrightarrow> fits64 i \<Longrightarrow> ts_add e t i = Some (t + i)"
  unfolding engine_ok_def ts_add_ok_def by blast

text \<open>
  An engine that satisfies it: a sequential scan that returns the first match, and exact
  arithmetic inside the ranges.
\<close>

definition seq_engine :: engine where
  "seq_engine = \<lparr>
     pick = List.find,
     ts_add = (\<lambda>t i. if ts_in_range (t + i) \<and> fits64 i then Some (t + i) else None),
     float_ovf = (\<lambda>_. - (2 ^ 63)),
     sql_msg = (\<lambda>e. case e of
         UniqueViolation \<Rightarrow> ''duplicate key value''
       | IntegerOutOfRange \<Rightarrow> ''integer out of range''
       | TimestampOutOfRange \<Rightarrow> ''timestamp out of range'')\<rparr>"

lemma seq_engine_ok [simp]: "engine_ok seq_engine"
  by (auto simp: engine_ok_def pick_ok_def ts_add_ok_def seq_engine_def
      find_None_iff find_Some_iff split: option.splits if_splits)

section \<open>Durations in SQL\<close>

text \<open>
  \<open>make_interval(secs => d.Seconds())\<close>: the duration is passed as a number of seconds and
  becomes a whole number of microseconds, rounded to nearest and ties to even. The
  number of seconds is exact here; in \<open>float64\<close> its error stays below half a microsecond
  for durations of up to a century.
\<close>

definition make_interval :: "dur \<Rightarrow> int" where
  "make_interval d = (let q = d div 1000; r = d mod 1000
     in if r < 500 \<or> r = 500 \<and> even q then q else q + 1)"

lemma make_interval_us [simp]: "make_interval (1000 * k) = k"
  by (simp add: make_interval_def)

lemma make_interval_bounds: "d - 500 \<le> 1000 * make_interval d \<and> 1000 * make_interval d \<le> d + 500"
proof -
  have "make_interval d = d div 1000 \<and> d mod 1000 \<le> 500
      \<or> make_interval d = d div 1000 + 1 \<and> 500 \<le> d mod 1000"
    by (auto simp: make_interval_def Let_def)
  moreover have "1000 * (d div 1000) + d mod 1000 = d" "0 \<le> d mod 1000" "d mod 1000 < 1000"
    by simp_all
  ultimately show ?thesis by (elim disjE conjE) linarith+
qed

lemma make_interval_nonneg: "0 \<le> d \<Longrightarrow> 0 \<le> make_interval d"
  using make_interval_bounds [of d] by linarith

text \<open>
  A Go conversion of a floating-point value to \<open>int64\<close>: exact when it fits, and otherwise
  whatever the platform gives.
\<close>

definition float_to_int64 :: "engine \<Rightarrow> int \<Rightarrow> int" where
  "float_to_int64 e x = (if fits64 x then x else float_ovf e x)"

definition float_to_int32 :: "engine \<Rightarrow> int \<Rightarrow> int32" where
  "float_to_int32 e x = word_of_int (if fits32 x then x else float_ovf e x)"

end
