(* ===== verification/Postgres_Jobs.thy ===== *)
theory Postgres_Jobs
  imports Store_Rows
begin

text \<open>
  The job half of \<open>internal/storage/postgres.go\<close>: each SQL statement as a function on the
  database, and each Go method as the statement run under a call, followed by what the
  method makes of the driver's answer. A Go result \<open>(T, error)\<close> is \<^typ>\<open>goerror + 'a\<close>, a
  lone \<open>error\<close> is \<^typ>\<open>goerror option\<close> with \<^const>\<open>None\<close> for nil.
\<close>

section \<open>The retry decision\<close>

definition retryDecision :: "job_row \<Rightarrow> string" where
  "retryDecision r =
     (if jr_retry_count r < jr_max_retries r then ''pending'' else ''failed'')"

definition doneAtDecision :: "ts \<Rightarrow> job_row \<Rightarrow> ts option" where
  "doneAtDecision t r =
     (if jr_retry_count r < jr_max_retries r then None else Some t)"

text \<open>\<open>retry_count + 1\<close> in a column of type \<open>INT\<close>.\<close>

definition bump_retry :: "job_row \<Rightarrow> sql_error + int" where
  "bump_retry r = (if fits32 (jr_retry_count r + 1) then Inr (jr_retry_count r + 1)
     else Inl IntegerOutOfRange)"

text \<open>\<open>CURRENT_TIMESTAMP + make_interval(...)\<close>.\<close>

definition after_interval :: "engine \<Rightarrow> ts \<Rightarrow> dur \<Rightarrow> sql_error + ts" where
  "after_interval e t x = (case ts_add e t (make_interval x) of
      None \<Rightarrow> Inl TimestampOutOfRange | Some t' \<Rightarrow> Inr t')"

definition update_jobs ::
  "(job_row \<Rightarrow> bool) \<Rightarrow> (job_row \<Rightarrow> sql_error + job_row) \<Rightarrow> (db, job_row list) stmt" where
  "update_jobs P f d = (case update_where P f (jobs d) of
      Inl x \<Rightarrow> Inl x
    | Inr (rs, us) \<Rightarrow> Inr (d\<lparr>jobs := rs\<rparr>, us))"

text \<open>\<open>res.RowsAffected()\<close>.\<close>

definition RowsAffected :: "db_call \<Rightarrow> 'r list \<Rightarrow> goerror + nat" where
  "RowsAffected c us = (case flt c of
      RowsFault m \<Rightarrow> Inl (Wrap ''rows affected'' (DriverError m))
    | _ \<Rightarrow> Inr (length us))"

section \<open>CreateJob\<close>

definition new_row :: "ts \<Rightarrow> Job \<Rightarrow> job_row" where
  "new_row t j = \<lparr>
     jr_id = job_Id j,
     jr_type = job_Type j,
     jr_payload = job_Payload j,
     jr_state = (if job_Status j = '''' then ''pending'' else job_Status j),
     jr_retry_count = 0,
     jr_max_retries = (if job_MaxRetries j = 0 then 3 else sint (job_MaxRetries j)),
     jr_last_error = Some (job_Error j),
     jr_created_at = t,
     jr_started_at = None,
     jr_done_at = None,
     jr_next_run_at = Some t,
     jr_worker_id = '''',
     jr_lease_expires_at = None,
     jr_claim_term = 0\<rparr>"

definition sql_insert_job :: "ts \<Rightarrow> Job \<Rightarrow> (db, unit) stmt" where
  "sql_insert_job t j d =
     (if job_of d (job_Id j) \<noteq> None then Inl UniqueViolation
      else Inr (d\<lparr>jobs := jobs d @ [new_row t j]\<rparr>, ()))"

definition CreateJob :: "db_call \<Rightarrow> Job \<Rightarrow> db \<Rightarrow> db \<times> goerror option" where
  "CreateJob c j d = (case exec c (sql_insert_job (now c) j) d of
      (d', Inl err) \<Rightarrow> (d', Some (Wrap ''create job'' err))
    | (d', Inr _) \<Rightarrow> (d', None))"

section \<open>DequeueJob\<close>

text \<open>The condition of the inner \<open>SELECT ... FOR UPDATE SKIP LOCKED\<close>.\<close>

definition visible :: "db_call \<Rightarrow> job_row \<Rightarrow> bool" where
  "visible c r \<longleftrightarrow> jr_state r = ''pending'' \<and> sql_le (jr_next_run_at r) (now c)
     \<and> jr_id r \<notin> set (locked c)"

definition claim_row ::
  "engine \<Rightarrow> ts \<Rightarrow> int \<Rightarrow> string \<Rightarrow> dur \<Rightarrow> job_row \<Rightarrow> sql_error + job_row" where
  "claim_row e t term workerID lease r = (case after_interval e t lease of
      Inl x \<Rightarrow> Inl x
    | Inr l \<Rightarrow> Inr (r\<lparr>
        jr_state := ''processing'',
        jr_started_at := Some t,
        jr_worker_id := workerID,
        jr_claim_term := max (jr_claim_term r) term,
        jr_lease_expires_at := Some l\<rparr>))"

definition job_of_row :: "job_row \<Rightarrow> Job" where
  "job_of_row r = \<lparr>
     job_Id = jr_id r,
     job_Type = jr_type r,
     job_Payload = jr_payload r,
     job_Status = jr_state r,
     job_Error = (case jr_last_error r of None \<Rightarrow> '''' | Some m \<Rightarrow> m),
     job_RetryCount = word_of_int (jr_retry_count r),
     job_MaxRetries = word_of_int (jr_max_retries r)\<rparr>"

definition sql_dequeue ::
  "engine \<Rightarrow> db_call \<Rightarrow> int \<Rightarrow> string \<Rightarrow> dur \<Rightarrow> (db, job_row list) stmt" where
  "sql_dequeue e c term workerID lease d = (case pick e (visible c) (jobs d) of
      None \<Rightarrow> Inr (d, [])
    | Some v \<Rightarrow> update_jobs (\<lambda>r. jr_id r = jr_id v)
        (claim_row e (now c) term workerID lease) d)"

definition DequeueJob ::
  "engine \<Rightarrow> db_call \<Rightarrow> int \<Rightarrow> string \<Rightarrow> dur \<Rightarrow> db \<Rightarrow> db \<times> (goerror + Job option)" where
  "DequeueJob e c term workerID lease d =
     (case exec c (sql_dequeue e c term workerID lease) d of
        (d', Inl err) \<Rightarrow> (d', Inl (Wrap ''dequeue job'' err))
      | (d', Inr []) \<Rightarrow> (d', Inr None)
      | (d', Inr (r # _)) \<Rightarrow> (d', Inr (Some (job_of_row r))))"

section \<open>Complete, FailJob, HeartbeatJob\<close>

text \<open>The fence all three share: \<open>id = $1 AND worker_id = $2 AND state = 'processing'\<close>.\<close>

definition held_by :: "string \<Rightarrow> string \<Rightarrow> job_row \<Rightarrow> bool" where
  "held_by i workerID r \<longleftrightarrow>
     jr_id r = i \<and> jr_worker_id r = workerID \<and> jr_state r = ''processing''"

definition finish_row :: "ts \<Rightarrow> job_row \<Rightarrow> sql_error + job_row" where
  "finish_row t r = Inr (r\<lparr>
     jr_state := ''done'',
     jr_done_at := Some t,
     jr_worker_id := '''',
     jr_lease_expires_at := None\<rparr>)"

definition Complete :: "db_call \<Rightarrow> string \<Rightarrow> string \<Rightarrow> db \<Rightarrow> db \<times> goerror option" where
  "Complete c i workerID d =
     (case exec c (update_jobs (held_by i workerID) (finish_row (now c))) d of
        (d', Inl err) \<Rightarrow> (d', Some (Wrap ''mark done'' err))
      | (d', Inr us) \<Rightarrow> (case RowsAffected c us of
            Inl err \<Rightarrow> (d', Some err)
          | Inr n \<Rightarrow> (d', if n = 0 then Some ErrLeaseLost else None)))"

text \<open>The backoff: \<open>make_interval(secs => $2 * pow(2, retry_count))\<close> from now.\<close>

definition backoff :: "dur \<Rightarrow> int \<Rightarrow> dur" where
  "backoff baseDelay retry_count = baseDelay * 2 ^ nat retry_count"

definition next_run_after_fail :: "engine \<Rightarrow> ts \<Rightarrow> dur \<Rightarrow> job_row \<Rightarrow> sql_error + ts option" where
  "next_run_after_fail e t baseDelay r =
     (if jr_retry_count r < jr_max_retries r
      then map_sum id Some (after_interval e t (backoff baseDelay (jr_retry_count r)))
      else Inr (jr_next_run_at r))"

definition fail_row :: "engine \<Rightarrow> ts \<Rightarrow> string \<Rightarrow> dur \<Rightarrow> job_row \<Rightarrow> sql_error + job_row" where
  "fail_row e t errMsg baseDelay r =
     (case (bump_retry r, next_run_after_fail e t baseDelay r) of
        (Inr n, Inr nr) \<Rightarrow> Inr (r\<lparr>
          jr_state := retryDecision r,
          jr_retry_count := n,
          jr_last_error := Some errMsg,
          jr_worker_id := '''',
          jr_lease_expires_at := None,
          jr_done_at := doneAtDecision t r,
          jr_next_run_at := nr\<rparr>)
      | (Inl x, _) \<Rightarrow> Inl x
      | (_, Inl x) \<Rightarrow> Inl x)"

definition FailJob ::
  "engine \<Rightarrow> db_call \<Rightarrow> string \<Rightarrow> string \<Rightarrow> string \<Rightarrow> dur \<Rightarrow> db \<Rightarrow> db \<times> (goerror + bool)" where
  "FailJob e c i workerID errMsg baseDelay d =
     (case exec c (update_jobs (held_by i workerID) (fail_row e (now c) errMsg baseDelay)) d of
        (d', Inl err) \<Rightarrow> (d', Inl (Wrap ''fail job'' err))
      | (d', Inr []) \<Rightarrow> (d', Inl ErrLeaseLost)
      | (d', Inr (r # _)) \<Rightarrow> (d', Inr (jr_state r = ''pending'')))"

definition beat_row :: "engine \<Rightarrow> ts \<Rightarrow> dur \<Rightarrow> job_row \<Rightarrow> sql_error + job_row" where
  "beat_row e t lease r = (case after_interval e t lease of
      Inl x \<Rightarrow> Inl x
    | Inr l \<Rightarrow> Inr (r\<lparr>jr_lease_expires_at := Some l\<rparr>))"

definition HeartbeatJob ::
  "engine \<Rightarrow> db_call \<Rightarrow> string \<Rightarrow> string \<Rightarrow> dur \<Rightarrow> db \<Rightarrow> db \<times> (goerror + bool)" where
  "HeartbeatJob e c i workerID lease d =
     (case exec c (update_jobs (held_by i workerID) (beat_row e (now c) lease)) d of
        (d', Inl err) \<Rightarrow> (d', Inl (Wrap ''heartbeat job'' err))
      | (d', Inr us) \<Rightarrow> (d', map_sum id (\<lambda>n. 0 < n) (RowsAffected c us)))"

section \<open>NextVisible\<close>

definition min_ts :: "ts list \<Rightarrow> ts option" where
  "min_ts xs = (case xs of [] \<Rightarrow> None | x # ys \<Rightarrow> Some (foldr min ys x))"

text \<open>
  The aggregate query: microseconds until the smallest \<open>next_run_at\<close> of the pending rows (0 if
  there is none), and whether there is a pending row.
\<close>

definition sql_next_visible :: "ts \<Rightarrow> (db, int \<times> bool) stmt" where
  "sql_next_visible t d = (let ps = filter (\<lambda>r. jr_state r = ''pending'') (jobs d)
     in Inr (d, (case min_ts (List.map_filter jr_next_run_at ps) of
                   None \<Rightarrow> 0 | Some m \<Rightarrow> m - t), ps \<noteq> []))"

definition NextVisible :: "engine \<Rightarrow> db_call \<Rightarrow> db \<Rightarrow> db \<times> (goerror + dur \<times> bool)" where
  "NextVisible e c d = (case exec c (sql_next_visible (now c)) d of
      (d', Inl err) \<Rightarrow> (d', Inl (Wrap ''next visible job'' err))
    | (d', Inr (us, pending)) \<Rightarrow> (d', Inr (float_to_int64 e (us * 1000), pending)))"

section \<open>ReapExpiredLeases\<close>

definition reapable :: "ts \<Rightarrow> int \<Rightarrow> job_row \<Rightarrow> bool" where
  "reapable t term r \<longleftrightarrow> jr_state r = ''processing'' \<and> sql_lt (jr_lease_expires_at r) t
     \<and> jr_claim_term r \<le> term"

definition reap_row :: "ts \<Rightarrow> job_row \<Rightarrow> sql_error + job_row" where
  "reap_row t r = (case bump_retry r of
      Inl x \<Rightarrow> Inl x
    | Inr n \<Rightarrow> Inr (r\<lparr>
        jr_state := retryDecision r,
        jr_retry_count := n,
        jr_last_error := Some ''lease expired'',
        jr_worker_id := '''',
        jr_lease_expires_at := None,
        jr_done_at := doneAtDecision t r,
        jr_next_run_at := Some t\<rparr>))"

definition ReapExpiredLeases :: "db_call \<Rightarrow> int \<Rightarrow> db \<Rightarrow> db \<times> (goerror + nat)" where
  "ReapExpiredLeases c term d =
     (case exec c (update_jobs (reapable (now c) term) (reap_row (now c))) d of
        (d', Inl err) \<Rightarrow> (d', Inl (Wrap ''reap expired leases'' err))
      | (d', Inr us) \<Rightarrow> (d', RowsAffected c us))"

section \<open>Every statement keeps the primary key\<close>

lemma update_jobs_Inr:
  "update_jobs P f d = Inr (d', us) \<Longrightarrow>
     \<exists>rs. update_where P f (jobs d) = Inr (rs, us) \<and> d' = d\<lparr>jobs := rs\<rparr>"
  by (auto simp: update_jobs_def split: sum.splits)

lemma after_interval_Inr:
  "engine_ok e \<Longrightarrow> after_interval e t x = Inr l \<Longrightarrow> l = t + make_interval x"
  by (auto simp: after_interval_def split: option.splits dest: engine_ts_addD)

lemma after_interval_total:
  "engine_ok e \<Longrightarrow> ts_in_range (t + make_interval x) \<Longrightarrow> fits64 (make_interval x) \<Longrightarrow>
     after_interval e t x = Inr (t + make_interval x)"
  by (simp add: after_interval_def engine_ts_add_total)

interpretation claim: keyed_update jr_id P "claim_row e t trm w lease"
  for P and e and t and trm and w and lease
  by unfold_locales (auto simp: claim_row_def split: sum.splits)

interpretation finish: keyed_update jr_id P "finish_row t" for P and t
  by unfold_locales (auto simp: finish_row_def)

interpretation fail: keyed_update jr_id P "fail_row e t m b" for P and e and t and m and b
  by unfold_locales (auto simp: fail_row_def split: sum.splits)

interpretation beat: keyed_update jr_id P "beat_row e t lease" for P and e and t and lease
  by unfold_locales (auto simp: beat_row_def split: sum.splits)

interpretation reap: keyed_update jr_id P "reap_row t" for P and t
  by unfold_locales (auto simp: reap_row_def split: sum.splits)

end
