(* ===== verification/Job_Lifecycle.thy ===== *)
theory Job_Lifecycle
  imports Postgres_Leadership
begin

text \<open>
  Sequences of store operations, issued by any node or worker in any order with any fault,
  clock and locked rows, and what they do to one job. Every operation moves each row by at
  most one step of \<open>row_step\<close>; the invariants of a job, the monotone fencing token, the
  bound on attempts and the refinement to an abstract job are proved of that relation and
  lifted to sequences.
\<close>

section \<open>Operations and sequences\<close>

datatype store_op =
    OpCreate Job
  | OpDequeue int string dur
  | OpComplete string string
  | OpFail string string string dur
  | OpHeartbeat string string dur
  | OpNextVisible
  | OpReap int
  | OpCampaign string dur
  | OpRenew string dur
  | OpResign string

fun apply_op :: "engine \<Rightarrow> db_call \<Rightarrow> store_op \<Rightarrow> db \<Rightarrow> db" where
  "apply_op e c (OpCreate j) d = fst (CreateJob c j d)"
| "apply_op e c (OpDequeue tm w lease) d = fst (DequeueJob e c tm w lease d)"
| "apply_op e c (OpComplete i w) d = fst (Complete c i w d)"
| "apply_op e c (OpFail i w m b) d = fst (FailJob e c i w m b d)"
| "apply_op e c (OpHeartbeat i w lease) d = fst (HeartbeatJob e c i w lease d)"
| "apply_op e c OpNextVisible d = fst (NextVisible e c d)"
| "apply_op e c (OpReap tm) d = fst (ReapExpiredLeases c tm d)"
| "apply_op e c (OpCampaign n lease) d = fst (Campaign e c n lease d)"
| "apply_op e c (OpRenew n lease) d = fst (RenewLeadership e c n lease d)"
| "apply_op e c (OpResign n) d = fst (ResignLeadership c n d)"

fun run_ops :: "engine \<Rightarrow> (db_call \<times> store_op) list \<Rightarrow> db \<Rightarrow> db" where
  "run_ops e [] d = d"
| "run_ops e ((c, op) # xs) d = run_ops e xs (apply_op e c op d)"

section \<open>The steps of one row\<close>

datatype row_event =
    RCreate Job
  | RClaim int string
  | RFinish string
  | RFail string
  | RBeat string
  | RReap int

inductive row_step :: "engine \<Rightarrow> ts \<Rightarrow> row_event \<Rightarrow> job_row option \<Rightarrow> job_row option \<Rightarrow> bool"
  for e :: engine and t :: ts where
  create: "row_step e t (RCreate j) None (Some (new_row t j))"
| claim: "jr_state r = ''pending'' \<Longrightarrow> sql_le (jr_next_run_at r) t \<Longrightarrow>
    claim_row e t tm w lease r = Inr r' \<Longrightarrow> row_step e t (RClaim tm w) (Some r) (Some r')"
| finish: "jr_state r = ''processing'' \<Longrightarrow> jr_worker_id r = w \<Longrightarrow>
    finish_row t r = Inr r' \<Longrightarrow> row_step e t (RFinish w) (Some r) (Some r')"
| fail: "jr_state r = ''processing'' \<Longrightarrow> jr_worker_id r = w \<Longrightarrow>
    fail_row e t m b r = Inr r' \<Longrightarrow> row_step e t (RFail w) (Some r) (Some r')"
| beat: "jr_state r = ''processing'' \<Longrightarrow> jr_worker_id r = w \<Longrightarrow>
    beat_row e t lease r = Inr r' \<Longrightarrow> row_step e t (RBeat w) (Some r) (Some r')"
| reap: "reapable t tm r \<Longrightarrow>
    reap_row t r = Inr r' \<Longrightarrow> row_step e t (RReap tm) (Some r) (Some r')"

inductive_cases row_step_Some: "row_step e t ev (Some r) ro"
inductive_cases row_step_None: "row_step e t ev None ro"

text \<open>The event an operation can cause on the job with id \<open>i\<close>.\<close>

fun op_event :: "store_op \<Rightarrow> string \<Rightarrow> row_event \<Rightarrow> bool" where
  "op_event (OpCreate j) i ev \<longleftrightarrow> ev = RCreate j \<and> job_Id j = i"
| "op_event (OpDequeue tm w lease) i ev \<longleftrightarrow> ev = RClaim tm w"
| "op_event (OpComplete k w) i ev \<longleftrightarrow> ev = RFinish w \<and> k = i"
| "op_event (OpFail k w m b) i ev \<longleftrightarrow> ev = RFail w \<and> k = i"
| "op_event (OpHeartbeat k w lease) i ev \<longleftrightarrow> ev = RBeat w \<and> k = i"
| "op_event (OpReap tm) i ev \<longleftrightarrow> ev = RReap tm"
| "op_event op i ev \<longleftrightarrow> False"

section \<open>Every operation is at most one step of each row\<close>

text \<open>
  What one \<open>UPDATE jobs\<close> does to the database, for any statement that keeps the key: the
  ids stay, the leadership row stays, and each row is as before or satisfied the condition
  and was set.
\<close>

locale job_statement = keyed_update jr_id guard set_row
  for guard :: "job_row \<Rightarrow> bool" and set_row :: "job_row \<Rightarrow> sql_error + job_row"
begin

lemma stmt_ids: "map jr_id (jobs (stmt_state (update_jobs guard set_row) d)) = map jr_id (jobs d)"
  by (auto simp: stmt_state_def update_jobs_def keys_kept split: sum.splits)

lemma stmt_leadership: "leadership (stmt_state (update_jobs guard set_row) d) = leadership d"
  by (auto simp: stmt_state_def update_jobs_def split: sum.splits)

lemma stmt_row:
  "job_of (stmt_state (update_jobs guard set_row) d) i = job_of d i
   \<or> (\<exists>r r'. job_of d i = Some r \<and> guard r \<and> set_row r = Inr r'
        \<and> job_of (stmt_state (update_jobs guard set_row) d) i = Some r')"
  by (auto simp: stmt_state_def update_jobs_def split: sum.splits elim!: lookup_cases)

end

interpretation claim_jobs: job_statement P "claim_row e t tm w lease"
  for P and e and t and tm and w and lease by unfold_locales

interpretation finish_jobs: job_statement P "finish_row t" for P and t by unfold_locales

interpretation fail_jobs: job_statement P "fail_row e t m b" for P and e and t and m and b
  by unfold_locales

interpretation beat_jobs: job_statement P "beat_row e t lease" for P and e and t and lease
  by unfold_locales

interpretation reap_jobs: job_statement P "reap_row t" for P and t by unfold_locales

text \<open>The effect of an operation's statement when it runs to completion.\<close>

fun op_effect :: "engine \<Rightarrow> db_call \<Rightarrow> store_op \<Rightarrow> db \<Rightarrow> db" where
  "op_effect e c (OpCreate j) d = stmt_state (sql_insert_job (now c) j) d"
| "op_effect e c (OpDequeue tm w lease) d = stmt_state (sql_dequeue e c tm w lease) d"
| "op_effect e c (OpComplete i w) d =
     stmt_state (update_jobs (held_by i w) (finish_row (now c))) d"
| "op_effect e c (OpFail i w m b) d =
     stmt_state (update_jobs (held_by i w) (fail_row e (now c) m b)) d"
| "op_effect e c (OpHeartbeat i w lease) d =
     stmt_state (update_jobs (held_by i w) (beat_row e (now c) lease)) d"
| "op_effect e c OpNextVisible d = d"
| "op_effect e c (OpReap tm) d =
     stmt_state (update_jobs (reapable (now c) tm) (reap_row (now c))) d"
| "op_effect e c (OpCampaign n lease) d = stmt_state (sql_campaign e (now c) n lease) d"
| "op_effect e c (OpRenew n lease) d = stmt_state (sql_renew e (now c) n lease) d"
| "op_effect e c (OpResign n) d = stmt_state (sql_resign n) d"

lemma fst_CreateJob: "fst (CreateJob c j d) = fst (exec c (sql_insert_job (now c) j) d)"
  by (simp add: CreateJob_def split: prod.split sum.split)

lemma fst_DequeueJob:
  "fst (DequeueJob e c tm w lease d) = fst (exec c (sql_dequeue e c tm w lease) d)"
  by (simp add: DequeueJob_def split: prod.split sum.split list.split)

lemma fst_Complete:
  "fst (Complete c i w d) = fst (exec c (update_jobs (held_by i w) (finish_row (now c))) d)"
  by (simp add: Complete_def split: prod.split sum.split)

lemma fst_FailJob: "fst (FailJob e c i w m b d) =
    fst (exec c (update_jobs (held_by i w) (fail_row e (now c) m b)) d)"
  by (simp add: FailJob_def split: prod.split sum.split list.split)

lemma fst_HeartbeatJob: "fst (HeartbeatJob e c i w lease d) =
    fst (exec c (update_jobs (held_by i w) (beat_row e (now c) lease)) d)"
  by (simp add: HeartbeatJob_def split: prod.split sum.split)

lemma fst_NextVisible [simp]: "fst (NextVisible e c d) = d"
  using exec_state [of c "sql_next_visible (now c)" d]
  by (auto simp: NextVisible_def stmt_state_def sql_next_visible_def Let_def
      split: prod.split sum.split)

lemma fst_ReapExpiredLeases: "fst (ReapExpiredLeases c tm d) =
    fst (exec c (update_jobs (reapable (now c) tm) (reap_row (now c))) d)"
  by (simp add: ReapExpiredLeases_def split: prod.split sum.split)

lemma fst_scan_term: "fst (scan_term what x) = fst x"
  by (simp add: scan_term_def split: prod.split sum.split option.split)

lemma fst_ResignLeadership: "fst (ResignLeadership c n d) = fst (exec c (sql_resign n) d)"
  by (simp add: ResignLeadership_def split: prod.split sum.split)

lemmas fst_ops = fst_CreateJob fst_DequeueJob fst_Complete fst_FailJob fst_HeartbeatJob
  fst_ReapExpiredLeases fst_scan_term fst_ResignLeadership Campaign_def RenewLeadership_def

lemma apply_op_effect: "apply_op e c op d = d \<or> apply_op e c op d = op_effect e c op d"
  by (cases op) (simp_all add: fst_ops exec_state)

lemma stmt_state_leadership_ops [simp]:
  "jobs (stmt_state (sql_campaign e t n lease) d) = jobs d"
  "jobs (stmt_state (sql_renew e t n lease) d) = jobs d"
  "jobs (stmt_state (sql_resign n) d) = jobs d"
  by (simp_all add: stmt_state_def sql_campaign_def sql_renew_def sql_resign_def Let_def
      split: sum.split)

lemma insert_row:
  "job_of (stmt_state (sql_insert_job t j) d) i =
     (if i = job_Id j \<and> job_of d i = None then Some (new_row t j) else job_of d i)"
  by (auto simp: stmt_state_def sql_insert_job_def row_of_append new_row_def split: option.split)

lemma insert_ids: "distinct (map jr_id (jobs d)) \<Longrightarrow>
    distinct (map jr_id (jobs (stmt_state (sql_insert_job t j) d)))"
  by (auto simp: stmt_state_def sql_insert_job_def new_row_def row_of_None_iff)

text \<open>
  A claim, for an engine that picks a matching row: the row picked is visible, and the
  condition \<open>id = (SELECT ...)\<close> selects it alone.
\<close>

lemma dequeue_row:
  assumes "engine_ok e" and "distinct (map jr_id (jobs d))"
  shows "job_of (stmt_state (sql_dequeue e c tm w lease) d) i = job_of d i
    \<or> (\<exists>r r'. job_of d i = Some r \<and> visible c r \<and> claim_row e (now c) tm w lease r = Inr r'
         \<and> job_of (stmt_state (sql_dequeue e c tm w lease) d) i = Some r')"
proof (cases "pick e (visible c) (jobs d)")
  case None
  then show ?thesis by (simp add: stmt_state_def sql_dequeue_def)
next
  case (Some v)
  with assms have v: "visible c v" "job_of d (jr_id v) = Some v"
    by (auto dest!: engine_pickD intro: row_of_in)
  let ?u = "stmt_state (update_jobs (\<lambda>r. jr_id r = jr_id v) (claim_row e (now c) tm w lease)) d"
  have u: "stmt_state (sql_dequeue e c tm w lease) d = ?u"
    using Some by (simp add: stmt_state_def sql_dequeue_def)
  consider "job_of ?u i = job_of d i"
    | r r' where "job_of d i = Some r" "jr_id r = jr_id v"
        "claim_row e (now c) tm w lease r = Inr r'" "job_of ?u i = Some r'"
    using claim_jobs.stmt_row [of "\<lambda>r. jr_id r = jr_id v" e "now c" tm w lease d i] by blast
  then show ?thesis
  proof cases
    case 1
    with u show ?thesis by simp
  next
    case (2 r r')
    with v(2) have "r = v" by (metis option.inject row_of_SomeD)
    with 2 v(1) u show ?thesis by simp
  qed
qed

lemma dequeue_ids: "map jr_id (jobs (stmt_state (sql_dequeue e c tm w lease) d)) = map jr_id (jobs d)"
  using claim_jobs.stmt_ids by (auto simp: stmt_state_def sql_dequeue_def split: option.split)

lemma apply_op_ids:
  assumes "distinct (map jr_id (jobs d))"
  shows "distinct (map jr_id (jobs (apply_op e c op d)))"
proof -
  have "distinct (map jr_id (jobs (op_effect e c op d)))"
    using assms by (cases op) (simp_all add: insert_ids dequeue_ids finish_jobs.stmt_ids
        fail_jobs.stmt_ids beat_jobs.stmt_ids reap_jobs.stmt_ids)
  with assms show ?thesis using apply_op_effect [of e c op d] by auto
qed

text \<open>The simulation: every operation is a step of \<open>row_step\<close> on each row, or leaves it.\<close>

lemma op_effect_row:
  assumes "engine_ok e" and "distinct (map jr_id (jobs d))"
  shows "job_of (op_effect e c op d) i = job_of d i
    \<or> (\<exists>ev. op_event op i ev
          \<and> row_step e (now c) ev (job_of d i) (job_of (op_effect e c op d) i))"
proof (cases op)
  case (OpCreate j)
  then show ?thesis by (auto simp: insert_row intro: row_step.create)
next
  case (OpDequeue tm w lease)
  then show ?thesis
    using dequeue_row [OF assms, of c tm w lease i]
    by (auto simp: visible_def intro: row_step.claim)
next
  case (OpComplete k w)
  then show ?thesis
    using finish_jobs.stmt_row [of "held_by k w" "now c" d i]
    by (auto simp: held_by_def intro: row_step.finish dest: row_of_SomeD)
next
  case (OpFail k w m b)
  then show ?thesis
    using fail_jobs.stmt_row [of "held_by k w" e "now c" m b d i]
    by (auto simp: held_by_def intro: row_step.fail dest: row_of_SomeD)
next
  case (OpHeartbeat k w lease)
  then show ?thesis
    using beat_jobs.stmt_row [of "held_by k w" e "now c" lease d i]
    by (auto simp: held_by_def intro: row_step.beat dest: row_of_SomeD)
next
  case (OpReap tm)
  then show ?thesis
    using reap_jobs.stmt_row [of "reapable (now c) tm" "now c" d i]
    by (auto intro: row_step.reap)
qed simp_all

lemma apply_op_row:
  assumes "engine_ok e" and "distinct (map jr_id (jobs d))"
  shows "job_of (apply_op e c op d) i = job_of d i
    \<or> (\<exists>ev. op_event op i ev
          \<and> row_step e (now c) ev (job_of d i) (job_of (apply_op e c op d) i))"
  using apply_op_effect [of e c op d] op_effect_row [OF assms, of c op i] by auto

section \<open>From steps to sequences\<close>

lemma run_ops_ids:
  "distinct (map jr_id (jobs d)) \<Longrightarrow> distinct (map jr_id (jobs (run_ops e xs d)))"
  by (induction e xs d rule: run_ops.induct) (auto simp: apply_op_ids)

text \<open>A reflexive and transitive relation that every row step respects holds across sequences.\<close>

lemma run_ops_row:
  assumes "engine_ok e" and "distinct (map jr_id (jobs d))"
    and "\<And>c op ev. (c, op) \<in> set xs \<Longrightarrow> op_event op i ev \<Longrightarrow> G ev"
    and refl: "\<And>ro. Q ro ro" and trans: "\<And>x y z. Q x y \<Longrightarrow> Q y z \<Longrightarrow> Q x z"
    and step: "\<And>t ev ro ro'. row_step e t ev ro ro' \<Longrightarrow> G ev \<Longrightarrow> Q ro ro'"
  shows "Q (job_of d i) (job_of (run_ops e xs d) i)"
  using assms(2,3)
proof (induction xs arbitrary: d)
  case Nil
  then show ?case by (simp add: refl)
next
  case (Cons x xs)
  obtain c op where x: "x = (c, op)" by (cases x)
  have "Q (job_of d i) (job_of (apply_op e c op d) i)"
    using apply_op_row [OF assms(1) Cons.prems(1), of c op i]
  proof (elim disjE exE conjE)
    assume "job_of (apply_op e c op d) i = job_of d i"
    then show ?thesis by (simp add: refl)
  next
    fix ev assume "op_event op i ev"
      and "row_step e (now c) ev (job_of d i) (job_of (apply_op e c op d) i)"
    with Cons.prems(2) x show ?thesis by (auto intro: step)
  qed
  moreover have "Q (job_of (apply_op e c op d) i) (job_of (run_ops e xs (apply_op e c op d)) i)"
    using Cons.prems by (intro Cons.IH) (auto simp: apply_op_ids)
  ultimately show ?case by (auto intro: trans simp: x)
qed

end
