(* ===== verification/Job_Invariants.thy ===== *)
theory Job_Invariants
  imports Job_Lifecycle
begin

text \<open>
  The properties of sequences of store operations: the well-formedness invariant of the
  tables, the settled states, the fencing token, the number of attempts, and the refinement
  to an abstract job that is waiting, leased, finished or dead.
\<close>

section \<open>Well-formed rows\<close>

definition settled :: "job_row \<Rightarrow> bool" where
  "settled r \<longleftrightarrow> jr_state r \<in> {''done'', ''failed''}"

definition job_ok :: "job_row \<Rightarrow> bool" where
  "job_ok r \<longleftrightarrow>
     jr_state r \<in> {''pending'', ''processing'', ''done'', ''failed''}
   \<and> (jr_state r = ''processing'') = (jr_worker_id r \<noteq> '''')
   \<and> (jr_state r = ''processing'') = (jr_lease_expires_at r \<noteq> None)
   \<and> settled r = (jr_done_at r \<noteq> None)
   \<and> (jr_state r \<noteq> ''pending'' \<longrightarrow> jr_started_at r \<noteq> None)
   \<and> jr_next_run_at r \<noteq> None
   \<and> 0 \<le> jr_retry_count r
   \<and> jr_retry_count r \<le> max 0 (jr_max_retries r) + (if jr_state r = ''failed'' then 1 else 0)
   \<and> (jr_state r = ''failed'' \<longrightarrow> jr_retry_count r = max 0 (jr_max_retries r) + 1)
   \<and> fits32 (jr_retry_count r) \<and> fits32 (jr_max_retries r)
   \<and> 0 \<le> jr_claim_term r"

definition db_ok :: "db \<Rightarrow> bool" where
  "db_ok d \<longleftrightarrow> distinct (map jr_id (jobs d)) \<and> list_all job_ok (jobs d)"

text \<open>
  What the server guarantees of the arguments it passes: a job is created pending, and a
  claim names a worker and carries a term.
\<close>

fun op_ok :: "store_op \<Rightarrow> bool" where
  "op_ok (OpCreate j) \<longleftrightarrow> job_Status j \<in> {'''', ''pending''}"
| "op_ok (OpDequeue tm w lease) \<longleftrightarrow> w \<noteq> '''' \<and> 0 \<le> tm"
| "op_ok _ \<longleftrightarrow> True"

fun event_ok :: "row_event \<Rightarrow> bool" where
  "event_ok (RCreate j) \<longleftrightarrow> job_Status j \<in> {'''', ''pending''}"
| "event_ok (RClaim tm w) \<longleftrightarrow> w \<noteq> '''' \<and> 0 \<le> tm"
| "event_ok _ \<longleftrightarrow> True"

lemma op_event_ok: "op_ok op \<Longrightarrow> op_event op i ev \<Longrightarrow> event_ok ev"
  by (cases op) auto

lemma db_ok_row: "db_ok d \<Longrightarrow> job_of d i = Some r \<Longrightarrow> job_ok r"
  by (auto simp: db_ok_def list_all_iff dest: row_of_SomeD)

lemma db_okI:
  assumes "distinct (map jr_id (jobs d))" and "\<And>i r. job_of d i = Some r \<Longrightarrow> job_ok r"
  shows "db_ok d"
  using assms row_of_in [OF assms(1)] by (auto simp: db_ok_def list_all_iff)

lemma new_row_ok: "job_Status j \<in> {'''', ''pending''} \<Longrightarrow> job_ok (new_row t j)"
  by (auto simp: job_ok_def settled_def new_row_def fits32_def [of 3] fits32_def [of 0])

lemma claim_row_ok:
  "claim_row e t tm w lease r = Inr r' \<Longrightarrow> jr_state r = ''pending'' \<Longrightarrow> w \<noteq> '''' \<Longrightarrow> 0 \<le> tm \<Longrightarrow>
     job_ok r \<Longrightarrow> job_ok r'"
  by (auto simp: job_ok_def settled_def claim_row_def split: sum.splits)

lemma finish_row_ok:
  "finish_row t r = Inr r' \<Longrightarrow> jr_state r = ''processing'' \<Longrightarrow> job_ok r \<Longrightarrow> job_ok r'"
  by (auto simp: job_ok_def settled_def finish_row_def)

lemma beat_row_ok:
  "beat_row e t lease r = Inr r' \<Longrightarrow> jr_state r = ''processing'' \<Longrightarrow> job_ok r \<Longrightarrow> job_ok r'"
  by (auto simp: job_ok_def settled_def beat_row_def split: sum.splits)

lemma next_run_after_fail_nonnull:
  "next_run_after_fail e t b r = Inr x \<Longrightarrow> jr_next_run_at r \<noteq> None \<Longrightarrow> x \<noteq> None"
  by (cases "after_interval e t (backoff b (jr_retry_count r))")
     (auto simp: next_run_after_fail_def simp del: not_None_eq split: if_splits)

lemma fail_row_Inr:
  assumes "fail_row e t m b r = Inr r'"
  obtains x where "next_run_after_fail e t b r = Inr x" and "fits32 (jr_retry_count r + 1)"
    and "r' = r\<lparr>jr_state := retryDecision r, jr_retry_count := jr_retry_count r + 1,
      jr_last_error := Some m, jr_worker_id := '''', jr_lease_expires_at := None,
      jr_done_at := doneAtDecision t r, jr_next_run_at := x\<rparr>"
  using assms by (auto simp: fail_row_def bump_retry_def split: sum.splits if_splits)

lemma fail_row_ok:
  assumes "fail_row e t m b r = Inr r'" and "jr_state r = ''processing''" and "job_ok r"
  shows "job_ok r'"
proof -
  from assms(1) obtain x where x: "next_run_after_fail e t b r = Inr x"
    and f: "fits32 (jr_retry_count r + 1)"
    and r': "r' = r\<lparr>jr_state := retryDecision r, jr_retry_count := jr_retry_count r + 1,
      jr_last_error := Some m, jr_worker_id := '''', jr_lease_expires_at := None,
      jr_done_at := doneAtDecision t r, jr_next_run_at := x\<rparr>"
    by (rule fail_row_Inr)
  from x assms(3) have "x \<noteq> None"
    using next_run_after_fail_nonnull by (auto simp: job_ok_def)
  with f r' assms(2,3) show ?thesis
    by (auto simp: job_ok_def settled_def retryDecision_def doneAtDecision_def)
qed

lemma reap_row_ok:
  "reap_row t r = Inr r' \<Longrightarrow> jr_state r = ''processing'' \<Longrightarrow> job_ok r \<Longrightarrow> job_ok r'"
  by (auto simp: job_ok_def settled_def reap_row_def retryDecision_def doneAtDecision_def
      bump_retry_def split: sum.splits if_splits)

lemma row_step_ok:
  assumes "row_step e t ev ro (Some r')" and "event_ok ev" and "\<And>r. ro = Some r \<Longrightarrow> job_ok r"
  shows "job_ok r'"
  using assms
  by (cases rule: row_step.cases)
     (auto simp: reapable_def intro: new_row_ok claim_row_ok finish_row_ok fail_row_ok
       beat_row_ok reap_row_ok)

lemma apply_op_ok:
  assumes "engine_ok e" and "db_ok d" and "op_ok op"
  shows "db_ok (apply_op e c op d)"
proof (rule db_okI)
  have ids: "distinct (map jr_id (jobs d))" using assms(2) by (simp add: db_ok_def)
  then show "distinct (map jr_id (jobs (apply_op e c op d)))" by (rule apply_op_ids)
  fix i r' assume r': "job_of (apply_op e c op d) i = Some r'"
  from apply_op_row [OF assms(1) ids, of c op i] show "job_ok r'"
  proof (elim disjE exE conjE)
    assume "job_of (apply_op e c op d) i = job_of d i"
    with r' assms(2) show ?thesis by (auto intro: db_ok_row)
  next
    fix ev assume "op_event op i ev"
      and "row_step e (now c) ev (job_of d i) (job_of (apply_op e c op d) i)"
    with r' assms(2,3) show ?thesis
      by (auto intro: row_step_ok op_event_ok db_ok_row)
  qed
qed

lemma run_ops_ok:
  "engine_ok e \<Longrightarrow> db_ok d \<Longrightarrow> \<forall>x \<in> set xs. op_ok (snd x) \<Longrightarrow> db_ok (run_ops e xs d)"
  by (induction e xs d rule: run_ops.induct) (auto simp: apply_op_ok)

section \<open>Settled jobs stay settled\<close>

lemma row_step_not_settled: "row_step e t ev (Some r) ro \<Longrightarrow> \<not> settled r"
  by (auto simp: settled_def reapable_def elim: row_step_Some)

lemma run_ops_settled:
  assumes "engine_ok e" and "distinct (map jr_id (jobs d))"
    and "job_of d i = Some r" and "settled r"
  shows "job_of (run_ops e xs d) i = Some r"
proof -
  let ?Q = "\<lambda>ro ro'. \<forall>r. ro = Some r \<and> settled r \<longrightarrow> ro' = Some r"
  have "?Q (job_of d i) (job_of (run_ops e xs d) i)"
    by (rule run_ops_row [where G = "\<lambda>_. True" and Q = ?Q, OF assms(1,2)])
       (auto dest: row_step_not_settled)
  with assms(3,4) show ?thesis by blast
qed

section \<open>The fencing token only moves up\<close>

definition row_term :: "job_row option \<Rightarrow> int" where
  "row_term ro = (case ro of None \<Rightarrow> 0 | Some r \<Rightarrow> jr_claim_term r)"

lemma row_step_term: "row_step e t ev ro ro' \<Longrightarrow> row_term ro \<le> row_term ro'"
  by (cases rule: row_step.cases)
     (auto simp: row_term_def new_row_def claim_row_def finish_row_def fail_row_def beat_row_def
       reap_row_def split: sum.splits)

lemma run_ops_term:
  assumes "engine_ok e" and "distinct (map jr_id (jobs d))"
  shows "row_term (job_of d i) \<le> row_term (job_of (run_ops e xs d) i)"
  by (rule run_ops_row [where G = "\<lambda>_. True" and Q = "\<lambda>ro ro'. row_term ro \<le> row_term ro'", OF assms])
     (auto dest: row_step_term)

section \<open>The number of attempts\<close>

text \<open>How often the job has been handed to a worker, read off its row.\<close>

definition attempts :: "job_row option \<Rightarrow> int" where
  "attempts ro = (case ro of None \<Rightarrow> 0
     | Some r \<Rightarrow> jr_retry_count r + (if jr_state r \<in> {''processing'', ''done''} then 1 else 0))"

text \<open>How often a sequence of operations hands it out: its row goes from pending to processing.\<close>

definition claimed :: "job_row option \<Rightarrow> job_row option \<Rightarrow> bool" where
  "claimed ro ro' = (case (ro, ro') of
      (Some r, Some r') \<Rightarrow> jr_state r = ''pending'' \<and> jr_state r' = ''processing''
    | _ \<Rightarrow> False)"

fun claims :: "engine \<Rightarrow> string \<Rightarrow> (db_call \<times> store_op) list \<Rightarrow> db \<Rightarrow> nat" where
  "claims e i [] d = 0"
| "claims e i ((c, op) # xs) d =
     (if claimed (job_of d i) (job_of (apply_op e c op d) i) then 1 else 0)
     + claims e i xs (apply_op e c op d)"

lemma row_step_attempts:
  assumes "row_step e t ev ro ro'" and "event_ok ev"
  shows "attempts ro' = attempts ro + (if claimed ro ro' then 1 else 0)"
  using assms
  by (cases rule: row_step.cases)
     (auto simp: attempts_def claimed_def new_row_def claim_row_def finish_row_def beat_row_def
       reap_row_def reapable_def bump_retry_def retryDecision_def
       split: sum.splits if_splits elim!: fail_row_Inr)

lemma claimed_same: "\<not> claimed ro ro"
  by (auto simp: claimed_def split: option.splits)

lemma apply_op_attempts:
  assumes "engine_ok e" and "distinct (map jr_id (jobs d))" and "op_ok op"
  shows "attempts (job_of (apply_op e c op d) i) =
    attempts (job_of d i) + (if claimed (job_of d i) (job_of (apply_op e c op d) i) then 1 else 0)"
  using apply_op_row [OF assms(1,2), of c op i]
proof (elim disjE exE conjE)
  assume "job_of (apply_op e c op d) i = job_of d i"
  then show ?thesis by (simp add: claimed_same)
next
  fix ev assume "op_event op i ev"
    and "row_step e (now c) ev (job_of d i) (job_of (apply_op e c op d) i)"
  with assms(3) show ?thesis by (intro row_step_attempts) (auto intro: op_event_ok)
qed

lemma run_ops_attempts:
  assumes "engine_ok e" and "distinct (map jr_id (jobs d))" and "\<forall>x \<in> set xs. op_ok (snd x)"
  shows "attempts (job_of (run_ops e xs d) i) = attempts (job_of d i) + int (claims e i xs d)"
  using assms(2,3)
proof (induction xs arbitrary: d)
  case Nil
  then show ?case by simp
next
  case (Cons x xs)
  obtain c op where x: "x = (c, op)" by (cases x)
  with Cons.prems have "op_ok op" by simp
  with Cons apply_op_attempts [OF assms(1) Cons.prems(1), of op c i] show ?case
    by (simp add: x apply_op_ids)
qed

lemma attempts_le: "job_ok r \<Longrightarrow> attempts (Some r) \<le> max 0 (jr_max_retries r) + 1"
  by (auto simp: attempts_def job_ok_def split: if_splits)

end
