(* ===== verification/Samples.thy ===== *)
theory Samples
  imports Job_Invariants
begin

text \<open>
  Small concrete databases and calls, on which the theorems with hypotheses are applied: a
  job leased to worker \<open>w1\<close> under term 1, a job waiting in the queue, and a leadership held by
  node \<open>n1\<close>.
\<close>

definition call_at :: "ts \<Rightarrow> db_call" where
  "call_at t = \<lparr>flt = NoFault, now = t, locked = []\<rparr>"

lemma call_at_simps [simp]: "flt (call_at t) = NoFault" "now (call_at t) = t" "locked (call_at t) = []"
  by (simp_all add: call_at_def)

definition job1 :: job_row where
  "job1 = \<lparr>jr_id = ''j1'', jr_type = ''normal'', jr_payload = '''', jr_state = ''processing'',
     jr_retry_count = 0, jr_max_retries = 3, jr_last_error = Some '''', jr_created_at = 1000,
     jr_started_at = Some 2000, jr_done_at = None, jr_next_run_at = Some 1000,
     jr_worker_id = ''w1'', jr_lease_expires_at = Some 30002000, jr_claim_term = 1\<rparr>"

definition job2 :: job_row where
  "job2 = \<lparr>jr_id = ''j2'', jr_type = ''flaky'', jr_payload = '''', jr_state = ''pending'',
     jr_retry_count = 0, jr_max_retries = 3, jr_last_error = Some '''', jr_created_at = 1500,
     jr_started_at = None, jr_done_at = None, jr_next_run_at = Some 1500,
     jr_worker_id = '''', jr_lease_expires_at = None, jr_claim_term = 0\<rparr>"

definition db1 :: db where
  "db1 = \<lparr>jobs = [job1, job2],
     leadership = \<lparr>lr_leader_id = ''n1'', lr_term = 1, lr_lease_expires_at = 30000000\<rparr>\<rparr>"

definition db0 :: db where
  "db0 = \<lparr>jobs = [], leadership = \<lparr>lr_leader_id = '''', lr_term = 0, lr_lease_expires_at = 0\<rparr>\<rparr>"

definition new_job :: Job where
  "new_job = \<lparr>job_Id = ''j3'', job_Type = ''normal'', job_Payload = '''', job_Status = '''',
     job_Error = '''', job_RetryCount = 0, job_MaxRetries = 0\<rparr>"

lemmas sample_defs = job1_def job2_def db1_def db0_def new_job_def

lemma db1_ok [simp]: "db_ok db1"
  by (simp add: db_ok_def job_ok_def settled_def fits32_def sample_defs)

lemma db0_ok [simp]: "db_ok db0"
  by (simp add: db_ok_def sample_defs)

lemma jobs_db1: "jobs db1 = [job1, job2]"
  by (simp add: db1_def)

lemma db1_rows [simp]: "job_of db1 ''j1'' = Some job1" "job_of db1 ''j2'' = Some job2"
  "distinct (map jr_id (jobs db1))"
  by (simp_all add: sample_defs)

lemma job_rows_simps [simp]:
  "jr_id job1 = ''j1''" "jr_state job1 = ''processing''" "jr_retry_count job1 = 0"
  "jr_max_retries job1 = 3" "jr_worker_id job1 = ''w1''" "jr_claim_term job1 = 1"
  "jr_lease_expires_at job1 = Some 30002000"
  "jr_id job2 = ''j2''" "jr_state job2 = ''pending''" "jr_next_run_at job2 = Some 1500"
  by (simp_all add: sample_defs)

end
