(* ===== verification/Store_Behaviour.thy ===== *)
theory Store_Behaviour
  imports Samples
begin

text \<open>
  What each method of the store returns and does, branch by branch, on a database whose ids
  are distinct: the fence of \<open>Complete\<close>, \<open>FailJob\<close> and \<open>HeartbeatJob\<close>, the claim of
  \<open>DequeueJob\<close>, the wait \<open>NextVisible\<close> reports and the sweep of \<open>ReapExpiredLeases\<close>.
\<close>

section \<open>Statements that touch one row\<close>

definition set_job :: "string \<Rightarrow> job_row \<Rightarrow> db \<Rightarrow> db" where
  "set_job i r d = d\<lparr>jobs := map (\<lambda>x. if jr_id x = i then r else x) (jobs d)\<rparr>"

lemma job_of_set_job:
  "jr_id r = i \<Longrightarrow> job_of (set_job i r d) k =
     (if k = i \<and> job_of d i \<noteq> None then Some r else job_of d k)"
proof -
  assume r: "jr_id r = i"
  have "row_of jr_id (map (\<lambda>x. if jr_id x = i then r else x) rs) k =
      (if k = i \<and> row_of jr_id rs i \<noteq> None then Some r else row_of jr_id rs k)" for rs
    using r by (induction rs) auto
  then show ?thesis by (simp add: set_job_def)
qed

lemma ids_set_job: "jr_id r = i \<Longrightarrow> map jr_id (jobs (set_job i r d)) = map jr_id (jobs d)"
  by (simp add: set_job_def)

lemma leadership_set_job [simp]: "leadership (set_job i r d) = leadership d"
  by (simp add: set_job_def)

lemma update_where_single:
  assumes "distinct (map jr_id rs)" and "row_of jr_id rs i = Some r"
    and "\<And>x. x \<in> set rs \<Longrightarrow> P x \<longleftrightarrow> jr_id x = i"
  shows "update_where P f rs = (case f r of Inl x \<Rightarrow> Inl x
    | Inr r' \<Rightarrow> Inr (map (\<lambda>x. if jr_id x = i then r' else x) rs, [r']))"
  using assms
proof (induction rs)
  case Nil
  then show ?case by simp
next
  case (Cons x rs)
  show ?case
  proof (cases "jr_id x = i")
    case True
    with Cons.prems(1) have rest: "\<forall>y \<in> set rs. jr_id y \<noteq> i" by (force simp: image_iff)
    then have "\<forall>y \<in> set rs. \<not> P y" using Cons.prems(3) by auto
    moreover have "map (\<lambda>x. if jr_id x = i then r' else x) rs = rs" for r'
      using rest by (intro map_idI) auto
    ultimately show ?thesis using True Cons.prems
      by (auto simp: update_where_none split: sum.splits)
  next
    case False
    with Cons show ?thesis by (auto split: sum.splits)
  qed
qed

lemma update_jobs_single:
  assumes "distinct (map jr_id (jobs d))" and "job_of d i = Some r"
    and "\<And>x. x \<in> set (jobs d) \<Longrightarrow> P x \<longleftrightarrow> jr_id x = i"
  shows "update_jobs P f d = (case f r of Inl x \<Rightarrow> Inl x | Inr r' \<Rightarrow> Inr (set_job i r' d, [r']))"
  using update_where_single [OF assms, of f]
  by (simp add: update_jobs_def set_job_def split: sum.split)

lemma update_jobs_none:
  "\<forall>x \<in> set (jobs d). \<not> P x \<Longrightarrow> update_jobs P f d = Inr (d, [])"
  by (simp add: update_jobs_def update_where_none)

text \<open>Whether the worker holds the job now, and the fenced statement in terms of that.\<close>

definition holds_lease :: "db \<Rightarrow> string \<Rightarrow> string \<Rightarrow> bool" where
  "holds_lease d i w = (case job_of d i of None \<Rightarrow> False
     | Some r \<Rightarrow> jr_worker_id r = w \<and> jr_state r = ''processing'')"

lemma holds_leaseE:
  assumes "holds_lease d i w"
  obtains r where "job_of d i = Some r" and "jr_id r = i" and "jr_worker_id r = w"
    and "jr_state r = ''processing''"
  using assms by (auto simp: holds_lease_def dest: row_of_SomeD split: option.splits)

lemma fenced_update:
  assumes ids: "distinct (map jr_id (jobs d))"
  shows "update_jobs (held_by i w) f d =
    (if holds_lease d i w
     then (case f (the (job_of d i)) of Inl x \<Rightarrow> Inl x | Inr r' \<Rightarrow> Inr (set_job i r' d, [r']))
     else Inr (d, []))"
proof (cases "holds_lease d i w")
  case True
  then obtain r where r: "job_of d i = Some r" "jr_worker_id r = w" "jr_state r = ''processing''"
    by (rule holds_leaseE)
  have "held_by i w x \<longleftrightarrow> jr_id x = i" if "x \<in> set (jobs d)" for x
    using row_of_in [OF ids that] r by (auto simp: held_by_def)
  then show ?thesis using update_jobs_single [OF ids r(1)] True r(1) by simp
next
  case False
  have "\<not> held_by i w x" if "x \<in> set (jobs d)" for x
    using row_of_in [OF ids that] False by (auto simp: held_by_def holds_lease_def)
  then show ?thesis using False by (simp add: update_jobs_none)
qed

lemma fenced_exec:
  assumes "distinct (map jr_id (jobs d))" and "flt c = NoFault"
  shows "exec c (update_jobs (held_by i w) f) d =
    (if holds_lease d i w
     then (case f (the (job_of d i)) of
         Inl x \<Rightarrow> (d, Inl (PgError x)) | Inr r' \<Rightarrow> (set_job i r' d, Inr [r']))
     else (d, Inr []))"
  using assms
  by (simp add: exec_ok stmt_state_def stmt_result_def fenced_update split: sum.split)

section \<open>Complete, FailJob and HeartbeatJob\<close>

text \<open>
  With the database answering, \<open>Complete\<close> succeeds exactly for the worker that holds the
  job's lease: it sets that row to done, clears the lease and touches nothing else. Anybody
  else (an unknown id, a job already settled, a worker whose job was reassigned) gets
  \<open>ErrLeaseLost\<close> and the database is unchanged.
\<close>

lemma Complete_fenced:
  assumes "distinct (map jr_id (jobs d))" and "flt c = NoFault"
  shows "Complete c i w d =
    (if holds_lease d i w
     then (set_job i ((the (job_of d i))\<lparr>jr_state := ''done'', jr_done_at := Some (now c),
             jr_worker_id := '''', jr_lease_expires_at := None\<rparr>) d, None)
     else (d, Some ErrLeaseLost))"
  using assms by (simp add: Complete_def fenced_exec RowsAffected_def finish_row_def)

text \<open>
  C33: With the database answering and its arithmetic in range, \<open>FailJob\<close> refuses anybody but
  the lease holder with \<open>ErrLeaseLost\<close> and no change; for the holder it counts the attempt,
  drops the lease, and puts the job back to pending with a wait of \<open>baseDelay * 2^retry_count\<close>
  and answers true while retries remain, or sets it to failed and answers false.
\<close>

theorem FailJob_decides:
  assumes "engine_ok e" and "db_ok d" and "flt c = NoFault"
    and "\<And>r. job_of d i = Some r \<Longrightarrow> fits32 (jr_max_retries r + 1)"
    and "\<And>r. job_of d i = Some r \<Longrightarrow>
      ts_in_range (now c + make_interval (b * 2 ^ nat (jr_retry_count r)))
      \<and> fits64 (make_interval (b * 2 ^ nat (jr_retry_count r)))"
  shows "FailJob e c i w m b d =
    (if \<not> holds_lease d i w then (d, Inl ErrLeaseLost)
     else let r = the (job_of d i) in
       if jr_retry_count r < jr_max_retries r
       then (set_job i (r\<lparr>jr_state := ''pending'', jr_retry_count := jr_retry_count r + 1,
               jr_last_error := Some m, jr_worker_id := '''', jr_lease_expires_at := None,
               jr_done_at := None, jr_next_run_at :=
                 Some (now c + make_interval (b * 2 ^ nat (jr_retry_count r)))\<rparr>) d, Inr True)
       else (set_job i (r\<lparr>jr_state := ''failed'', jr_retry_count := jr_retry_count r + 1,
               jr_last_error := Some m, jr_worker_id := '''', jr_lease_expires_at := None,
               jr_done_at := Some (now c)\<rparr>) d, Inr False))"
proof (cases "holds_lease d i w")
  case False
  with assms show ?thesis by (simp add: FailJob_def fenced_exec db_ok_def)
next
  case True
  then obtain r where r: "job_of d i = Some r" "jr_state r = ''processing''"
    by (rule holds_leaseE)
  with assms(2) have ok: "job_ok r" by (blast intro: db_ok_row)
  have "fits32 (jr_retry_count r + 1)"
    using ok r assms(4) [OF r(1)] by (auto simp: job_ok_def fits32_def)
  moreover have "after_interval e (now c) (backoff b (jr_retry_count r)) =
      Inr (now c + make_interval (b * 2 ^ nat (jr_retry_count r)))"
    using assms(1) assms(5) [OF r(1)] by (simp add: after_interval_total backoff_def)
  ultimately show ?thesis
    using True r(1) assms(2,3)
    by (simp add: FailJob_def fenced_exec db_ok_def fail_row_def bump_retry_def Let_def
        next_run_after_fail_def retryDecision_def doneAtDecision_def)
qed

theorem FailJob_decides_witness:
  "snd (FailJob seq_engine (call_at 5000) ''j1'' ''w1'' ''boom'' second db1) = Inr True"
  using FailJob_decides [of seq_engine db1 "call_at 5000" "''j1''" second "''w1''" "''boom''"]
  by (simp add: holds_lease_def fits32_def fits64_def ts_in_range_def second_def
      make_interval_def)

text \<open>
  With the database answering and the new expiry in range, \<open>HeartbeatJob\<close> reports whether
  the caller holds the job, moves the expiry of the holder's lease to now plus the lease and
  changes nothing for anybody else, also not for a holder of another job.
\<close>

lemma HeartbeatJob_renews:
  assumes "engine_ok e" and "distinct (map jr_id (jobs d))" and "flt c = NoFault"
    and "ts_in_range (now c + make_interval lease)" and "fits64 (make_interval lease)"
  shows "HeartbeatJob e c i w lease d =
    (if holds_lease d i w
     then (set_job i ((the (job_of d i))\<lparr>jr_lease_expires_at :=
             Some (now c + make_interval lease)\<rparr>) d, Inr True)
     else (d, Inr False))"
  using assms
  by (simp add: HeartbeatJob_def fenced_exec RowsAffected_def beat_row_def after_interval_total)

section \<open>DequeueJob\<close>

lemma sql_dequeue_eq:
  assumes "engine_ok e" and "distinct (map jr_id (jobs d))"
  shows "(pick e (visible c) (jobs d) = None \<and> (\<forall>r \<in> set (jobs d). \<not> visible c r)
      \<and> sql_dequeue e c tm w lease d = Inr (d, []))
    \<or> (\<exists>v. pick e (visible c) (jobs d) = Some v \<and> visible c v \<and> job_of d (jr_id v) = Some v
      \<and> sql_dequeue e c tm w lease d = (case claim_row e (now c) tm w lease v of
            Inl x \<Rightarrow> Inl x | Inr r' \<Rightarrow> Inr (set_job (jr_id v) r' d, [r'])))"
proof (cases "pick e (visible c) (jobs d)")
  case None
  with assms show ?thesis by (auto simp: sql_dequeue_def dest: engine_pick_NoneD)
next
  case (Some v)
  with assms have v: "v \<in> set (jobs d)" "visible c v" by (auto dest: engine_pickD)
  with assms have row: "job_of d (jr_id v) = Some v" by (simp add: row_of_in)
  show ?thesis
    using Some v row
      update_jobs_single [OF assms(2) row, of "\<lambda>r. jr_id r = jr_id v"
        "claim_row e (now c) tm w lease"]
    by (simp add: sql_dequeue_def)
qed

lemma claim_row_total:
  assumes "engine_ok e" "ts_in_range (t + make_interval lease)" "fits64 (make_interval lease)"
  shows "claim_row e t tm w lease r = Inr (r\<lparr>jr_state := ''processing'', jr_started_at := Some t,
    jr_worker_id := w, jr_claim_term := max (jr_claim_term r) tm,
    jr_lease_expires_at := Some (t + make_interval lease)\<rparr>)"
  using assms by (simp add: claim_row_def after_interval_total)

text \<open>
  With the database answering and the expiry in range, \<open>DequeueJob\<close> answers nil and changes
  nothing only when no job is visible; otherwise it hands out one visible job (pending, its
  backoff over, not locked by another transaction), and that row alone becomes processing,
  owned by the worker until now plus the lease, with its claim term raised to at least the
  caller's term.
\<close>

lemma DequeueJob_claims:
  assumes "engine_ok e" and "distinct (map jr_id (jobs d))" and "flt c = NoFault"
    and "ts_in_range (now c + make_interval lease)" and "fits64 (make_interval lease)"
  shows "(DequeueJob e c tm w lease d = (d, Inr None) \<and> (\<forall>r \<in> set (jobs d). \<not> visible c r))
    \<or> (\<exists>v r'. job_of d (jr_id v) = Some v \<and> visible c v
         \<and> r' = v\<lparr>jr_state := ''processing'', jr_started_at := Some (now c), jr_worker_id := w,
               jr_claim_term := max (jr_claim_term v) tm,
               jr_lease_expires_at := Some (now c + make_interval lease)\<rparr>
         \<and> DequeueJob e c tm w lease d = (set_job (jr_id v) r' d, Inr (Some (job_of_row r'))))"
  using sql_dequeue_eq [OF assms(1,2), of c tm w lease] claim_row_total [OF assms(1,4,5)]
  by (auto simp: DequeueJob_def exec_ok [OF assms(3)] stmt_state_def stmt_result_def)

lemma DequeueJob_None:
  assumes "engine_ok e" and "distinct (map jr_id (jobs d))"
    and "DequeueJob e c tm w lease d = (d', Inr None)"
  shows "d' = d \<and> (\<forall>r \<in> set (jobs d). \<not> visible c r)"
  using sql_dequeue_eq [OF assms(1,2), of c tm w lease]
proof (elim disjE exE conjE)
  fix v
  assume "sql_dequeue e c tm w lease d = (case claim_row e (now c) tm w lease v of
      Inl x \<Rightarrow> Inl x | Inr r' \<Rightarrow> Inr (set_job (jr_id v) r' d, [r']))"
  with assms(3) show ?thesis
    by (cases "claim_row e (now c) tm w lease v")
       (auto simp: DequeueJob_def exec_def stmt_result_def split: fault.splits)
qed (use assms(3) in \<open>auto simp: DequeueJob_def exec_def stmt_state_def stmt_result_def
      split: fault.splits\<close>)

text \<open>
  A successful claim: whatever the faults, the row returned is a visible row as \<open>claim_row\<close> sets
  it, and the job is read from that row.
\<close>

lemma DequeueJob_row:
  assumes "engine_ok e" and "distinct (map jr_id (jobs d))"
    and "DequeueJob e c tm w lease d = (d', Inr (Some j))"
  obtains v r where "job_of d (job_Id j) = Some v" and "visible c v"
    and "claim_row e (now c) tm w lease v = Inr r" and "d' = set_job (job_Id j) r d"
    and "j = job_of_row r" and "jr_id r = job_Id j"
proof -
  have "flt c = NoFault \<or> (\<exists>m. flt c = RowsFault m)"
    using assms(3) by (cases "flt c") (auto simp: DequeueJob_def exec_def split: list.splits)
  then have ex: "exec c (sql_dequeue e c tm w lease) d =
      (stmt_state (sql_dequeue e c tm w lease) d, stmt_result (sql_dequeue e c tm w lease) d)"
    by (auto simp: exec_def)
  from sql_dequeue_eq [OF assms(1,2), of c tm w lease] show thesis
  proof (elim disjE exE conjE)
    assume "sql_dequeue e c tm w lease d = Inr (d, [])"
    with assms(3) ex show thesis
      by (simp add: DequeueJob_def stmt_state_def stmt_result_def)
  next
    fix v assume v: "visible c v" "job_of d (jr_id v) = Some v"
      and eq: "sql_dequeue e c tm w lease d = (case claim_row e (now c) tm w lease v of
            Inl x \<Rightarrow> Inl x | Inr r' \<Rightarrow> Inr (set_job (jr_id v) r' d, [r']))"
    with assms(3) ex obtain r where r: "claim_row e (now c) tm w lease v = Inr r"
        "d' = set_job (jr_id v) r d" "j = job_of_row r"
      by (auto simp: DequeueJob_def stmt_state_def stmt_result_def split: sum.splits)
    moreover from r(1) have "jr_id r = jr_id v" by (auto simp: claim_row_def split: sum.splits)
    ultimately show thesis using that [of v r] v by (simp add: job_of_row_def)
  qed
qed

lemma DequeueJob_Some:
  assumes "engine_ok e" and "distinct (map jr_id (jobs d))"
    and "DequeueJob e c tm w lease d = (d', Inr (Some j))"
  shows "\<exists>v r'. job_of d (job_Id j) = Some v \<and> jr_state v = ''pending''
    \<and> job_Id j \<notin> set (locked c)
    \<and> d' = set_job (job_Id j) r' d \<and> jr_id r' = job_Id j \<and> jr_state r' = ''processing''
    \<and> jr_worker_id r' = w"
proof -
  from assms obtain v r where "job_of d (job_Id j) = Some v" "visible c v"
      "claim_row e (now c) tm w lease v = Inr r" "d' = set_job (job_Id j) r d" "jr_id r = job_Id j"
    by (rule DequeueJob_row)
  moreover from this have "jr_id v = job_Id j" by (auto dest: row_of_SomeD)
  ultimately show ?thesis by (auto simp: visible_def claim_row_def split: sum.splits)
qed

text \<open>
  Several dequeues in a row, by any workers at any times, with the ids each one was handed:
  the queue being drained.
\<close>

fun drain :: "engine \<Rightarrow> (db_call \<times> int \<times> string \<times> dur) list \<Rightarrow> db \<Rightarrow> string list" where
  "drain e [] d = []"
| "drain e ((c, tm, w, lease) # xs) d = (case DequeueJob e c tm w lease d of
      (d', Inr (Some j)) \<Rightarrow> job_Id j # drain e xs d'
    | (d', _) \<Rightarrow> drain e xs d')"

lemma DequeueJob_keeps_claimed:
  assumes "engine_ok e" and "distinct (map jr_id (jobs d))"
    and "job_of d i = Some r" and "jr_state r \<noteq> ''pending''"
  shows "job_of (fst (DequeueJob e c tm w lease d)) i = Some r"
  using apply_op_row [OF assms(1,2), of c "OpDequeue tm w lease" i] assms(3,4)
  by (auto elim!: row_step_Some)

lemma drain_not_claimed:
  assumes "engine_ok e" and "distinct (map jr_id (jobs d))"
    and "job_of d i = Some r" and "jr_state r \<noteq> ''pending''"
  shows "i \<notin> set (drain e xs d)"
  using assms(2-)
proof (induction xs arbitrary: d)
  case Nil
  then show ?case by simp
next
  case (Cons x xs)
  obtain c tm w lease where x: "x = (c, tm, w, lease)" by (metis surj_pair)
  obtain d' res where dq: "DequeueJob e c tm w lease d = (d', res)" by fastforce
  with Cons.prems have keep: "job_of d' i = Some r"
    using DequeueJob_keeps_claimed [OF assms(1), of d i r c tm w lease] by simp
  have ids: "distinct (map jr_id (jobs d'))"
    using apply_op_ids [OF Cons.prems(1), of e c "OpDequeue tm w lease"] dq by simp
  have "i \<notin> set (drain e xs d')" using Cons.IH [OF ids keep Cons.prems(3)] .
  moreover have "job_Id j \<noteq> i" if "res = Inr (Some j)" for j
    using DequeueJob_Some [OF assms(1) Cons.prems(1), of c tm w lease d' j] dq that Cons.prems
    by auto
  ultimately show ?case
    by (auto simp: x dq split: sum.splits option.splits)
qed

text \<open>
  No job is handed out twice: however many dequeues run, by whatever workers and terms, at
  whatever times and with whatever faults in between, the ids they return are distinct as
  long as nothing gives a job back.
\<close>

lemma drain_distinct:
  assumes "engine_ok e" and "distinct (map jr_id (jobs d))"
  shows "distinct (drain e xs d)"
  using assms(2)
proof (induction xs arbitrary: d)
  case Nil
  then show ?case by simp
next
  case (Cons x xs)
  obtain c tm w lease where x: "x = (c, tm, w, lease)" by (metis surj_pair)
  obtain d' res where dq: "DequeueJob e c tm w lease d = (d', res)" by fastforce
  have ids: "distinct (map jr_id (jobs d'))"
    using apply_op_ids [OF Cons.prems, of e c "OpDequeue tm w lease"] dq by simp
  show ?case
  proof (cases "\<exists>j. res = Inr (Some j)")
    case True
    then obtain j where j: "res = Inr (Some j)" ..
    from DequeueJob_Some [OF assms(1) Cons.prems, of c tm w lease d' j] dq j
    obtain r' where "job_of d' (job_Id j) = Some r'" "jr_state r' = ''processing''"
      by (auto simp: job_of_set_job)
    then have "job_Id j \<notin> set (drain e xs d')"
      using drain_not_claimed [OF assms(1) ids] by simp
    with Cons.IH [OF ids] show ?thesis by (simp add: x dq j)
  next
    case False
    with Cons.IH [OF ids] show ?thesis by (auto simp: x dq split: sum.splits option.splits)
  qed
qed

text \<open>
  The answer of a claim does not depend on the caller's term: a leader whose term is behind
  the row's claim term is handed the same job as the current one. The term only feeds the
  stamp \<open>claim_term\<close>, which keeps the larger value.
\<close>

lemma dequeue_ignores_term:
  "snd (DequeueJob e c tm w lease d) = snd (DequeueJob e c tm' w lease d)"
proof -
  have row: "map_sum id job_of_row (claim_row e t tm w lease r) =
      map_sum id job_of_row (claim_row e t tm' w lease r)" for t r
    by (simp add: claim_row_def job_of_row_def split: sum.split)
  have upd: "map_sum id (map job_of_row \<circ> snd) (update_where P (claim_row e t tm w lease) rs) =
      map_sum id (map job_of_row \<circ> snd) (update_where P (claim_row e t tm' w lease) rs)" for P t rs
  proof (induction rs)
    case (Cons r rs)
    with row [of t r] show ?case by (auto split: sum.splits)
  qed simp
  define f where "f tm = stmt_result (sql_dequeue e c tm w lease) d" for tm
  have "map_sum id (map job_of_row) (f tm) = map_sum id (map job_of_row) (f tm')"
  proof (cases "pick e (visible c) (jobs d)")
    case (Some v)
    with upd [of "\<lambda>r. jr_id r = jr_id v" "now c" "jobs d"] show ?thesis
      by (auto simp: f_def stmt_result_def sql_dequeue_def update_jobs_def split: sum.splits)
  qed (simp add: f_def stmt_result_def sql_dequeue_def)
  then have "case_sum (\<lambda>err. Inl (Wrap ''dequeue job'' err))
      (\<lambda>us. Inr (case us of [] \<Rightarrow> None | r # _ \<Rightarrow> Some (job_of_row r))) (f tm) =
    case_sum (\<lambda>err. Inl (Wrap ''dequeue job'' err))
      (\<lambda>us. Inr (case us of [] \<Rightarrow> None | r # _ \<Rightarrow> Some (job_of_row r))) (f tm')"
    by (auto split: sum.splits list.splits)
  then show ?thesis
    by (simp add: DequeueJob_def exec_def f_def split: fault.splits sum.splits list.splits)
qed

section \<open>NextVisible\<close>

lemma min_ts_None: "min_ts xs = None \<longleftrightarrow> xs = []"
  by (simp add: min_ts_def split: list.split)

lemma min_ts_Some: "min_ts xs = Some m \<Longrightarrow> m \<in> set xs \<and> (\<forall>x \<in> set xs. m \<le> x)"
proof (cases xs)
  case (Cons y ys)
  have "foldr min ys y \<in> set (y # ys) \<and> (\<forall>x \<in> set (y # ys). foldr min ys y \<le> x)"
    by (induction ys) (auto simp: min_def)
  then show "min_ts xs = Some m \<Longrightarrow> ?thesis" by (simp add: min_ts_def Cons)
qed (simp add: min_ts_def)

lemma NextVisible_answer:
  assumes "db_ok d" and "flt c = NoFault"
    and "\<forall>r \<in> set (jobs d). fits64 ((the (jr_next_run_at r) - now c) * 1000)"
  shows "(\<forall>r \<in> set (jobs d). jr_state r \<noteq> ''pending'') \<and> (\<exists>w. NextVisible e c d = (d, Inr (w, False)))
    \<or> (\<exists>m. NextVisible e c d = (d, Inr ((m - now c) * 1000, True))
        \<and> (\<forall>r \<in> set (jobs d). jr_state r = ''pending'' \<longrightarrow> m \<le> the (jr_next_run_at r))
        \<and> (\<exists>r \<in> set (jobs d). jr_state r = ''pending'' \<and> jr_next_run_at r = Some m))"
proof -
  define ps where "ps = filter (\<lambda>r. jr_state r = ''pending'') (jobs d)"
  define ts where "ts = List.map_filter jr_next_run_at ps"
  have nn: "jr_next_run_at r \<noteq> None" if "r \<in> set ps" for r
    using that assms(1) by (auto simp: ps_def db_ok_def list_all_iff job_ok_def simp del: not_None_eq)
  have set_ts: "set ts = {t. \<exists>r \<in> set ps. jr_next_run_at r = Some t}"
    by (force simp: ts_def List.map_filter_def image_iff)
  have res: "NextVisible e c d = (d, Inr (float_to_int64 e
      ((case min_ts ts of None \<Rightarrow> 0 | Some m \<Rightarrow> m - now c) * 1000), ps \<noteq> []))"
    using assms(2) by (simp add: NextVisible_def exec_ok stmt_state_def stmt_result_def
        sql_next_visible_def Let_def ps_def ts_def)
  show ?thesis
  proof (cases "ps = []")
    case True
    then have "\<forall>r \<in> set (jobs d). jr_state r \<noteq> ''pending''" by (simp add: ps_def filter_empty_conv)
    with True res show ?thesis by auto
  next
    case False
    then obtain r0 where r0: "r0 \<in> set ps" by (meson last_in_set)
    with nn set_ts have "ts \<noteq> []" by (cases "jr_next_run_at r0") auto
    then obtain m where m: "min_ts ts = Some m" by (metis min_ts_None option.exhaust)
    from min_ts_Some [OF m] set_ts obtain r where r: "r \<in> set ps" "jr_next_run_at r = Some m"
      and least: "\<And>x t. x \<in> set ps \<Longrightarrow> jr_next_run_at x = Some t \<Longrightarrow> m \<le> t" by auto
    from r(1) have "r \<in> set (jobs d)" by (simp add: ps_def)
    with assms(3) r(2) have "fits64 ((m - now c) * 1000)" by force
    then have "NextVisible e c d = (d, Inr ((m - now c) * 1000, True))"
      using res m False by (simp add: float_to_int64_def)
    moreover have "m \<le> the (jr_next_run_at x)" if "x \<in> set (jobs d)" "jr_state x = ''pending''" for x
      using that nn [of x] least [of x] by (cases "jr_next_run_at x") (auto simp: ps_def)
    moreover have "\<exists>x \<in> set (jobs d). jr_state x = ''pending'' \<and> jr_next_run_at x = Some m"
      using r by (auto simp: ps_def)
    ultimately show ?thesis by blast
  qed
qed

text \<open>
  With the database answering, \<open>NextVisible\<close> says whether anything is pending, and the wait
  it reports is exact: no pending job becomes visible earlier than that many nanoseconds
  from now, and at that moment one of them is due, so a dispatcher that sleeps that long
  neither misses a job nor wakes early.
\<close>

lemma NextVisible_exact:
  assumes "db_ok d" and "flt c = NoFault"
    and "\<forall>r \<in> set (jobs d). fits64 ((the (jr_next_run_at r) - now c) * 1000)"
  shows "\<exists>wait pending. NextVisible e c d = (d, Inr (wait, pending))
    \<and> pending = (\<exists>r \<in> set (jobs d). jr_state r = ''pending'')
    \<and> (pending \<longrightarrow>
         (\<forall>r \<in> set (jobs d). jr_state r = ''pending'' \<longrightarrow> \<not> sql_lt (jr_next_run_at r) (now c + wait div 1000))
       \<and> (\<exists>r \<in> set (jobs d). jr_state r = ''pending'' \<and> sql_le (jr_next_run_at r) (now c + wait div 1000)))"
  using NextVisible_answer [OF assms, of e]
proof (elim disjE exE conjE)
  fix m
  assume m: "NextVisible e c d = (d, Inr ((m - now c) * 1000, True))"
    "\<forall>r \<in> set (jobs d). jr_state r = ''pending'' \<longrightarrow> m \<le> the (jr_next_run_at r)"
    "\<exists>r \<in> set (jobs d). jr_state r = ''pending'' \<and> jr_next_run_at r = Some m"
  then show ?thesis
    by (intro exI [of _ "(m - now c) * 1000"] exI [of _ True]) (force simp: sql_lt_iff sql_le_iff)
qed auto

section \<open>ReapExpiredLeases\<close>

definition reaped :: "ts \<Rightarrow> job_row \<Rightarrow> job_row" where
  "reaped t r = r\<lparr>jr_state := retryDecision r, jr_retry_count := jr_retry_count r + 1,
     jr_last_error := Some ''lease expired'', jr_worker_id := '''', jr_lease_expires_at := None,
     jr_done_at := doneAtDecision t r, jr_next_run_at := Some t\<rparr>"

lemma reap_row_eq: "fits32 (jr_retry_count r + 1) \<Longrightarrow> reap_row t r = Inr (reaped t r)"
  by (simp add: reap_row_def bump_retry_def reaped_def)

text \<open>
  A sweep with the database answering releases exactly the jobs whose lease has expired and
  whose claim term is at most the sweeper's, counts them, and turns each into pending and due
  at once, or failed when its retries are used up; every other row is as it was.
\<close>

lemma Reap_releases:
  assumes "flt c = NoFault" and "\<forall>r \<in> set (jobs d). fits32 (jr_retry_count r + 1)"
  shows "ReapExpiredLeases c tm d =
    (d\<lparr>jobs := map (\<lambda>r. if reapable (now c) tm r then reaped (now c) r else r) (jobs d)\<rparr>,
     Inr (length (filter (reapable (now c) tm) (jobs d))))"
proof -
  have rows: "reap_row (now c) r = Inr (reaped (now c) r)" if "r \<in> set (jobs d)" for r
    using assms(2) that by (simp add: reap_row_eq)
  then have "update_where (reapable (now c) tm) (reap_row (now c)) (jobs d) =
    Inr (map (\<lambda>r. if reapable (now c) tm r then reaped (now c) r else r) (jobs d),
         map (reaped (now c)) (filter (reapable (now c) tm) (jobs d)))"
    by (subst update_where_total) (auto simp: upd_row_def)
  with assms(1) show ?thesis
    by (simp add: ReapExpiredLeases_def exec_ok stmt_state_def stmt_result_def update_jobs_def
        RowsAffected_def)
qed

lemma reap_keeps:
  assumes "job_of d i = Some r"
    and "tm < jr_claim_term r \<or> \<not> sql_lt (jr_lease_expires_at r) (now c)"
  shows "job_of (fst (ReapExpiredLeases c tm d)) i = Some r"
proof -
  have "\<not> reapable (now c) tm r" using assms(2) by (auto simp: reapable_def)
  then have "job_of (stmt_state (update_jobs (reapable (now c) tm) (reap_row (now c))) d) i = Some r"
    using reap_jobs.stmt_row [of "reapable (now c) tm" "now c" d i] assms(1) by auto
  with assms(1) show ?thesis
    unfolding fst_ReapExpiredLeases by (rule exec_preserves [where P = "\<lambda>x. job_of x i = Some r"])
qed

text \<open>
  The sweep is fenced: whatever the fault, a job whose claim term is above the sweeper's
  term, or whose lease has not expired, is left exactly as it was.
\<close>

lemma Reap_fenced:
  assumes "job_of d i = Some r"
    and "tm < jr_claim_term r \<or> \<not> sql_lt (jr_lease_expires_at r) (now c)"
  shows "job_of (fst (ReapExpiredLeases c tm d)) i = Some r"
  using assms by (rule reap_keeps)

text \<open>
  A heartbeat protects the job: after the lease holder renews at \<open>t\<close>, no sweep by any term
  at a time up to \<open>t\<close> plus the lease takes the job away.
\<close>

lemma heartbeat_protects:
  assumes "engine_ok e" and "distinct (map jr_id (jobs d))"
    and "HeartbeatJob e c i w lease d = (d', Inr True)"
    and "now c' \<le> now c + make_interval lease"
  shows "job_of (fst (ReapExpiredLeases c' tm d')) i = job_of d' i \<and> holds_lease d' i w"
proof -
  have "snd (HeartbeatJob e c i w lease d) \<noteq> Inr True" if "flt c \<noteq> NoFault"
    using that by (cases "flt c") (simp_all add: HeartbeatJob_def exec_def RowsAffected_def
        split: sum.split)
  with assms(3) have f: "flt c = NoFault" by auto
  with assms(2,3) have h: "holds_lease d i w"
    by (auto simp: HeartbeatJob_def fenced_exec RowsAffected_def split: if_splits)
  then obtain r where r: "job_of d i = Some r" "jr_id r = i" "jr_worker_id r = w"
      "jr_state r = ''processing''" by (rule holds_leaseE)
  from assms(2,3) f h r(1) obtain l where l: "after_interval e (now c) lease = Inr l"
    and d': "d' = set_job i (r\<lparr>jr_lease_expires_at := Some l\<rparr>) d"
    by (auto simp: HeartbeatJob_def fenced_exec RowsAffected_def beat_row_def split: sum.splits)
  have l': "l = now c + make_interval lease" using after_interval_Inr [OF assms(1) l] .
  have row: "job_of d' i = Some (r\<lparr>jr_lease_expires_at := Some l\<rparr>)"
    using d' r by (simp add: job_of_set_job)
  have "job_of (fst (ReapExpiredLeases c' tm d')) i = job_of d' i"
    using reap_keeps [OF row, of tm c'] assms(4) l' row by simp
  with row r show ?thesis by (simp add: holds_lease_def)
qed

end
