(* ===== verification/Job_Guarantees.thy ===== *)
theory Job_Guarantees
  imports Store_Behaviour
begin

text \<open>
  What a user of the queue may rely on, over arbitrary sequences of store operations: the
  abstract life of a job and the simulation of the store by it, and the theorems on
  well-formedness, attempts, settled jobs, fencing tokens and recovery.
\<close>

section \<open>The abstract job\<close>

text \<open>
  A job waits, is leased to a worker, is finished, or is dead; it counts its failed attempts
  against a budget of retries.
\<close>

datatype phase = Waiting | Leased string | Finished | Dead

record ajob =
  aj_phase :: phase
  aj_failures :: int
  aj_budget :: int

inductive ajob_step :: "ajob option \<Rightarrow> ajob option \<Rightarrow> bool" where
  submit: "ajob_step None (Some \<lparr>aj_phase = Waiting, aj_failures = 0, aj_budget = n\<rparr>)"
| lease: "aj_phase a = Waiting \<Longrightarrow> w \<noteq> '''' \<Longrightarrow> ajob_step (Some a) (Some (a\<lparr>aj_phase := Leased w\<rparr>))"
| success: "aj_phase a = Leased w \<Longrightarrow> ajob_step (Some a) (Some (a\<lparr>aj_phase := Finished\<rparr>))"
| retry: "aj_phase a = Leased w \<Longrightarrow> aj_failures a < aj_budget a \<Longrightarrow>
    ajob_step (Some a) (Some (a\<lparr>aj_phase := Waiting, aj_failures := aj_failures a + 1\<rparr>))"
| bury: "aj_phase a = Leased w \<Longrightarrow> \<not> aj_failures a < aj_budget a \<Longrightarrow>
    ajob_step (Some a) (Some (a\<lparr>aj_phase := Dead, aj_failures := aj_failures a + 1\<rparr>))"

definition abs_row :: "job_row \<Rightarrow> ajob" where
  "abs_row r = \<lparr>
     aj_phase = (if jr_state r = ''pending'' then Waiting
       else if jr_state r = ''processing'' then Leased (jr_worker_id r)
       else if jr_state r = ''done'' then Finished else Dead),
     aj_failures = jr_retry_count r,
     aj_budget = jr_max_retries r\<rparr>"

abbreviation abs_job :: "db \<Rightarrow> string \<Rightarrow> ajob option" where
  "abs_job d i \<equiv> map_option abs_row (job_of d i)"

text \<open>A heartbeat is not a step of the abstract job; every other row step is exactly one.\<close>

lemma abs_after_attempt:
  assumes "jr_state r = ''processing''"
    and "jr_state r' = retryDecision r" "jr_retry_count r' = jr_retry_count r + 1"
    and "jr_max_retries r' = jr_max_retries r"
  shows "ajob_step (Some (abs_row r)) (Some (abs_row r'))"
  using assms ajob_step.retry [of "abs_row r" "jr_worker_id r"]
    ajob_step.bury [of "abs_row r" "jr_worker_id r"]
  by (cases "jr_retry_count r < jr_max_retries r") (simp_all add: abs_row_def retryDecision_def)

lemma row_step_refines:
  assumes "row_step e t ev ro ro'" and "event_ok ev"
  shows "map_option abs_row ro' = map_option abs_row ro
    \<or> ajob_step (map_option abs_row ro) (map_option abs_row ro')"
  using assms
proof (cases rule: row_step.cases)
  case (create j)
  with assms(2) ajob_step.submit show ?thesis
    by (auto simp: abs_row_def new_row_def)
next
  case (claim r tm w lease r')
  with assms(2) ajob_step.lease [of "abs_row r" w] show ?thesis
    by (auto simp: abs_row_def claim_row_def split: sum.splits)
next
  case (finish r w r')
  with ajob_step.success [of "abs_row r" w] show ?thesis
    by (auto simp: abs_row_def finish_row_def)
next
  case (fail r w m b r')
  then show ?thesis by (auto elim!: fail_row_Inr intro: abs_after_attempt)
next
  case (beat r w lease r')
  then show ?thesis by (auto simp: abs_row_def beat_row_def split: sum.splits)
next
  case (reap tm r r')
  then show ?thesis
    by (auto simp: reap_row_def reapable_def bump_retry_def intro!: abs_after_attempt
        split: sum.splits if_splits)
qed


definition sample_run :: "(db_call \<times> store_op) list" where
  "sample_run = [(call_at 5000, OpCreate new_job),
     (call_at 6000, OpDequeue 1 ''w2'' (30 * second)),
     (call_at 7000, OpFail ''j1'' ''w1'' ''boom'' second),
     (call_at 9000, OpComplete ''j2'' ''w2''),
     (call_at 40000000, OpReap 1)]"

lemma sample_run_ok: "\<forall>x \<in> set sample_run. op_ok (snd x)"
  by (simp add: sample_run_def new_job_def)


section \<open>Guarantees over sequences\<close>





text \<open>
  C16: A settled job is settled for good: once a row is done or failed, no sequence of operations
  whatsoever changes it, so a completed job is never handed out, failed or completed again.
\<close>

theorem settled_forever:
  assumes "engine_ok e" and "distinct (map jr_id (jobs d))"
    and "job_of d i = Some r" and "settled r"
  shows "job_of (run_ops e xs d) i = Some r"
  using assms by (rule run_ops_settled)

theorem settled_forever_witness:
  "\<exists>r. job_of (run_ops seq_engine sample_run
      (fst (Complete (call_at 5000) ''j1'' ''w1'' db1))) ''j1'' = Some r \<and> settled r"
proof -
  let ?r = "job1\<lparr>jr_state := ''done'', jr_done_at := Some 5000, jr_worker_id := '''',
      jr_lease_expires_at := None\<rparr>"
  let ?d = "fst (Complete (call_at 5000) ''j1'' ''w1'' db1)"
  have d: "?d = set_job ''j1'' ?r db1"
    by (simp add: Complete_def fenced_exec holds_lease_def finish_row_def RowsAffected_def)
  then have "job_of ?d ''j1'' = Some ?r" "settled ?r" "distinct (map jr_id (jobs ?d))"
    by (simp_all add: job_of_set_job settled_def ids_set_job)
  with settled_forever [OF seq_engine_ok, of ?d "''j1''" ?r sample_run] show ?thesis by blast
qed

text \<open>
  The fencing token only moves up: no sequence of operations lowers a job's \<open>claim_term\<close>.
\<close>

lemma claim_term_monotone:
  assumes "engine_ok e" and "distinct (map jr_id (jobs d))"
  shows "row_term (job_of d i) \<le> row_term (job_of (run_ops e xs d) i)"
  using assms by (rule run_ops_term)

section \<open>Reassignment and recovery\<close>

lemma claims_j2:
  obtains d' j where "DequeueJob seq_engine (call_at 5000) 1 ''w2'' (30 * second) db1 = (d', Inr (Some j))"
proof -
  have "snd (DequeueJob seq_engine (call_at 5000) 1 ''w2'' (30 * second) db1) =
      Inr (Some \<lparr>job_Id = ''j2'', job_Type = ''flaky'', job_Payload = '''',
        job_Status = ''processing'', job_Error = '''', job_RetryCount = 0, job_MaxRetries = 3\<rparr>)"
    by (simp add: DequeueJob_def exec_def stmt_result_def sql_dequeue_def seq_engine_def
        visible_def update_jobs_def sample_defs claim_row_def after_interval_def job_of_row_def
        ts_in_range_def fits64_def second_def make_interval_def)
  then show thesis using that by (metis prod.collapse)
qed



text \<open>
  C26: A crashed worker's job comes back: a job whose lease has expired, with retries left and a
  claim term the sweeper may touch, is after one sweep pending and visible to every dequeue
  from then on, with the stalled attempt counted; a job without retries left is failed.
\<close>

theorem crash_recovery:
  assumes "db_ok d" and "flt c = NoFault" and "job_of d i = Some r" and "reapable (now c) tm r"
    and "\<forall>x \<in> set (jobs d). fits32 (jr_retry_count x + 1)"
    and "now c \<le> now c'" and "i \<notin> set (locked c')"
  shows "\<exists>r'. job_of (fst (ReapExpiredLeases c tm d)) i = Some r'
    \<and> jr_retry_count r' = jr_retry_count r + 1
    \<and> (if jr_retry_count r < jr_max_retries r then visible c' r' else jr_state r' = ''failed'')"
proof -
  have eq: "update_where (reapable (now c) tm) (reap_row (now c)) (jobs d) =
      Inr (map (upd_row (reapable (now c) tm) (reap_row (now c))) (jobs d),
        map (projr \<circ> reap_row (now c)) (filter (reapable (now c) tm) (jobs d)))"
    using assms(5) by (intro update_where_total) (simp add: reap_row_eq)
  from assms(3) have ri: "jr_id r = i" "r \<in> set (jobs d)" by (auto dest: row_of_SomeD)
  then have "reap_row (now c) r = Inr (reaped (now c) r)" using assms(5) by (simp add: reap_row_eq)
  then have "job_of (fst (ReapExpiredLeases c tm d)) i = Some (reaped (now c) r)"
    using reap.lookup_after [OF eq, of i] eq assms(2-4)
    by (simp add: fst_ReapExpiredLeases exec_ok stmt_state_def update_jobs_def upd_row_def)
  then show ?thesis using assms(6,7) ri
    by (auto simp: reaped_def retryDecision_def visible_def)
qed

theorem crash_recovery_witness:
  "\<exists>r'. job_of (fst (ReapExpiredLeases (call_at 40000000) 1 db1)) ''j1'' = Some r'
     \<and> visible (call_at 40000001) r'"
proof -
  have "reapable (now (call_at 40000000)) 1 job1" by (simp add: reapable_def)
  moreover have "\<forall>x \<in> set (jobs db1). fits32 (jr_retry_count x + 1)"
    by (simp add: sample_defs fits32_def)
  ultimately show ?thesis
    using crash_recovery [OF db1_ok call_at_simps(1) db1_rows(1), of 40000000 1 "call_at 40000001"]
    by auto
qed

section \<open>A job enqueued with a status of its own\<close>

text \<open>
  Every worker id a stream passes on is non-empty: the first message of a stream must name the
  worker.
\<close>

fun names_worker :: "store_op \<Rightarrow> bool" where
  "names_worker (OpComplete i w) \<longleftrightarrow> w \<noteq> ''''"
| "names_worker (OpFail i w m b) \<longleftrightarrow> w \<noteq> ''''"
| "names_worker (OpHeartbeat i w lease) \<longleftrightarrow> w \<noteq> ''''"
| "names_worker _ \<longleftrightarrow> True"

text \<open>
  A job enqueued with status \<open>processing\<close> is stuck: \<open>CreateJob\<close> stores the client's status
  unchecked, with no owner and no lease, and from then on no dequeue, report, heartbeat or
  sweep of any term ever changes the row.
\<close>

lemma enqueued_processing_is_stuck:
  assumes "engine_ok e" and "distinct (map jr_id (jobs d))"
    and "job_of d (job_Id j) = None" and "job_Status j = ''processing''" and "flt c = NoFault"
    and "\<forall>x \<in> set xs. names_worker (snd x)"
  shows "job_of (run_ops e ((c, OpCreate j) # xs) d) (job_Id j) = Some (new_row (now c) j)"
proof -
  let ?d = "apply_op e c (OpCreate j) d" and ?r = "new_row (now c) j"
  have row: "job_of ?d (job_Id j) = Some ?r"
    using assms(3,5) by (simp add: fst_CreateJob exec_ok insert_row)
  let ?stuck = "\<lambda>r. jr_state r = ''processing'' \<and> jr_worker_id r = '''' \<and> jr_lease_expires_at r = None"
  let ?Q = "\<lambda>ro ro'. \<forall>r. ro = Some r \<and> ?stuck r \<longrightarrow> ro' = Some r"
  let ?G = "\<lambda>ev. case ev of RFinish w \<Rightarrow> w \<noteq> '''' | RFail w \<Rightarrow> w \<noteq> '''' | RBeat w \<Rightarrow> w \<noteq> '''' | _ \<Rightarrow> True"
  have "?Q (job_of ?d (job_Id j)) (job_of (run_ops e xs ?d) (job_Id j))"
  proof (rule run_ops_row [where G = ?G and Q = ?Q, OF assms(1) apply_op_ids [OF assms(2)]])
    show "?G ev" if "(c, op) \<in> set xs" "op_event op (job_Id j) ev" for c op ev
      using that assms(6) by (cases op) auto
    show "?Q ro ro'" if "row_step e t ev ro ro'" "?G ev" for t ev ro ro'
      using that by (cases rule: row_step.cases) (auto simp: reapable_def)
  qed auto
  with row assms(4) show ?thesis by (simp add: new_row_def)
qed

section \<open>What a claim hands out\<close>

text \<open>
  C25: The job message a claim returns is well typed: its status is processing, its type and payload
  are those of the row, and its two 32-bit counters are exactly the row's integers, nothing
  being cut off on the way, with the retry count between zero and the retry budget.
\<close>

theorem dequeued_job_typed:
  assumes "engine_ok e" and "db_ok d" and "DequeueJob e c tm w lease d = (d', Inr (Some j))"
  shows "\<exists>r. job_of d (job_Id j) = Some r \<and> job_Status j = ''processing''
    \<and> job_Type j = jr_type r \<and> job_Payload j = jr_payload r
    \<and> sint (job_RetryCount j) = jr_retry_count r \<and> sint (job_MaxRetries j) = jr_max_retries r
    \<and> 0 \<le> sint (job_RetryCount j) \<and> sint (job_RetryCount j) \<le> max 0 (sint (job_MaxRetries j))"
proof -
  have "distinct (map jr_id (jobs d))" using assms(2) by (simp add: db_ok_def)
  from DequeueJob_row [OF assms(1) this assms(3)] obtain v r where
    v: "job_of d (job_Id j) = Some v" "visible c v" "claim_row e (now c) tm w lease v = Inr r" "j = job_of_row r"
    by metis
  have "job_ok v" using assms(2) v(1) by (rule db_ok_row)
  then have "fits32 (jr_retry_count v)" "fits32 (jr_max_retries v)" "0 \<le> jr_retry_count v"
      "jr_retry_count v \<le> max 0 (jr_max_retries v)"
    using v(2) by (simp_all add: job_ok_def visible_def)
  moreover have "job_Status j = ''processing'' \<and> job_Type j = jr_type v \<and> job_Payload j = jr_payload v
      \<and> job_RetryCount j = word_of_int (jr_retry_count v) \<and> job_MaxRetries j = word_of_int (jr_max_retries v)"
    using v(3,4) by (auto simp: claim_row_def job_of_row_def split: sum.splits)
  ultimately show ?thesis using v(1) by (simp add: sint_of_fits32 del: of_int_sint)
qed

theorem dequeued_job_typed_witness:
  "\<exists>d' j. DequeueJob seq_engine (call_at 5000) 1 ''w2'' (30 * second) db1 = (d', Inr (Some j))
     \<and> sint (job_RetryCount j) \<le> max 0 (sint (job_MaxRetries j))"
proof -
  obtain d' j where dq: "DequeueJob seq_engine (call_at 5000) 1 ''w2'' (30 * second) db1 = (d', Inr (Some j))"
    by (rule claims_j2)
  with dequeued_job_typed [OF seq_engine_ok db1_ok dq] show ?thesis by blast
qed

end
