(* ===== verification/Leader_Guarantees.thy ===== *)
theory Leader_Guarantees
  imports Job_Guarantees
begin

text \<open>
  The store's half of the election: what \<open>Campaign\<close>, \<open>RenewLeadership\<close> and
  \<open>ResignLeadership\<close> promise over arbitrary sequences of store operations, and what
  \<open>NewPostgresStore\<close> leaves behind on any database it may find.
\<close>

section \<open>The leadership row across operations\<close>

lemma stmt_state_leadership [simp]:
  "leadership (stmt_state (sql_insert_job t j) d) = leadership d"
  "leadership (stmt_state (sql_dequeue e c tm w lease) d) = leadership d"
  using claim_jobs.stmt_leadership
  by (auto simp: stmt_state_def sql_insert_job_def sql_dequeue_def split: option.split)

text \<open>An operation on jobs leaves the leadership row alone.\<close>

fun leader_op :: "store_op \<Rightarrow> bool" where
  "leader_op (OpCampaign n lease) \<longleftrightarrow> True"
| "leader_op (OpRenew n lease) \<longleftrightarrow> True"
| "leader_op (OpResign n) \<longleftrightarrow> True"
| "leader_op _ \<longleftrightarrow> False"

lemma op_effect_leadership: "\<not> leader_op op \<Longrightarrow> leadership (op_effect e c op d) = leadership d"
  by (cases op) (simp_all add: finish_jobs.stmt_leadership fail_jobs.stmt_leadership
      beat_jobs.stmt_leadership reap_jobs.stmt_leadership)

lemma apply_op_leadership:
  "\<not> leader_op op \<Longrightarrow> leadership (apply_op e c op d) = leadership d"
  using apply_op_effect [of e c op d] op_effect_leadership [of op e c d] by auto

lemma sql_campaign_cases:
  assumes "engine_ok e"
  shows "stmt_state (sql_campaign e t n lease) d = d
    \<or> lr_lease_expires_at (leadership d) < t
      \<and> leadership (stmt_state (sql_campaign e t n lease) d) =
          \<lparr>lr_leader_id = n, lr_term = lr_term (leadership d) + 1,
           lr_lease_expires_at = t + make_interval lease\<rparr>"
  using after_interval_Inr [OF assms]
  by (auto simp: stmt_state_def sql_campaign_def Let_def split: sum.splits)

lemma sql_renew_cases:
  assumes "engine_ok e"
  shows "stmt_state (sql_renew e t n lease) d = d
    \<or> lr_leader_id (leadership d) = n \<and> t \<le> lr_lease_expires_at (leadership d)
      \<and> leadership (stmt_state (sql_renew e t n lease) d) =
          (leadership d)\<lparr>lr_lease_expires_at := t + make_interval lease\<rparr>"
  using after_interval_Inr [OF assms]
  by (auto simp: stmt_state_def sql_renew_def Let_def split: sum.splits)

lemma sql_resign_cases:
  "stmt_state (sql_resign n) d = d
    \<or> lr_leader_id (leadership d) = n
      \<and> leadership (stmt_state (sql_resign n) d) =
          (leadership d)\<lparr>lr_leader_id := '''', lr_lease_expires_at := 0\<rparr>"
  by (auto simp: stmt_state_def sql_resign_def Let_def)

text \<open>The leadership row after an operation, case by case.\<close>

lemma apply_op_leadership_cases:
  assumes "engine_ok e"
  obtains (same) "leadership (apply_op e c op d) = leadership d"
    | (win) n lease where "op = OpCampaign n lease"
        "lr_lease_expires_at (leadership d) < now c"
        "leadership (apply_op e c op d) = \<lparr>lr_leader_id = n,
           lr_term = lr_term (leadership d) + 1, lr_lease_expires_at = now c + make_interval lease\<rparr>"
    | (renew) n lease where "op = OpRenew n lease" "lr_leader_id (leadership d) = n"
        "now c \<le> lr_lease_expires_at (leadership d)"
        "leadership (apply_op e c op d) =
           (leadership d)\<lparr>lr_lease_expires_at := now c + make_interval lease\<rparr>"
    | (resign) n where "op = OpResign n" "lr_leader_id (leadership d) = n"
        "leadership (apply_op e c op d) =
           (leadership d)\<lparr>lr_leader_id := '''', lr_lease_expires_at := 0\<rparr>"
proof (cases "apply_op e c op d = d \<or> \<not> leader_op op")
  case True
  then show thesis using same apply_op_leadership [of op e c d] by metis
next
  case False
  then have "apply_op e c op d = op_effect e c op d" "leader_op op"
    using apply_op_effect [of e c op d] by auto
  then show thesis
    using sql_campaign_cases [OF assms] sql_renew_cases [OF assms] sql_resign_cases
      same win renew resign
    by (cases op) (simp_all, metis+)
qed

lemma apply_op_term_mono:
  assumes "engine_ok e"
  shows "lr_term (leadership d) \<le> lr_term (leadership (apply_op e c op d))"
  by (rule apply_op_leadership_cases [OF assms, of c op d]) simp_all

section \<open>Wins\<close>

text \<open>The answers of one call, and the campaigns a sequence of operations wins: node and term.\<close>

fun won :: "engine \<Rightarrow> db_call \<Rightarrow> store_op \<Rightarrow> db \<Rightarrow> (string \<times> int) option" where
  "won e c (OpCampaign n lease) d = (case snd (Campaign e c n lease d) of
      Inr (tm, True) \<Rightarrow> Some (n, tm) | _ \<Rightarrow> None)"
| "won e c _ d = None"

fun wins :: "engine \<Rightarrow> (db_call \<times> store_op) list \<Rightarrow> db \<Rightarrow> (string \<times> int) list" where
  "wins e [] d = []"
| "wins e ((c, op) # xs) d =
     (case won e c op d of None \<Rightarrow> [] | Some x \<Rightarrow> [x]) @ wins e xs (apply_op e c op d)"

lemma won_term:
  assumes "engine_ok e" and "won e c op d = Some (n, tm)"
  shows "tm = lr_term (leadership d) + 1 \<and> lr_term (leadership (apply_op e c op d)) = tm
    \<and> lr_leader_id (leadership (apply_op e c op d)) = n"
proof (cases op)
  case (OpCampaign k lease)
  have "flt c = NoFault \<or> (\<exists>m. flt c = RowsFault m)"
    using assms(2) OpCampaign by (cases "flt c") (auto simp: Campaign_def scan_term_def exec_def)
  with OpCampaign assms(2) show ?thesis
    by (auto simp: Campaign_def scan_term_def exec_def stmt_state_def stmt_result_def
        sql_campaign_def Let_def split: sum.splits option.splits if_splits)
qed (use assms(2) in simp_all)

text \<open>
  Every win has a term of its own: the terms of the campaigns won in any sequence of
  operations, by any nodes and with any faults, are strictly increasing and above the term
  the row had before, so no two reigns ever share a fencing token.
\<close>

lemma wins_increase:
  assumes "engine_ok e"
  shows "sorted_wrt (<) (lr_term (leadership d) # map snd (wins e xs d))"
  using assms
proof (induction e xs d rule: wins.induct)
  case (2 e c op xs d)
  have IH: "sorted_wrt (<) (lr_term (leadership (apply_op e c op d))
      # map snd (wins e xs (apply_op e c op d)))"
    using 2 by simp
  have mono: "lr_term (leadership d) \<le> lr_term (leadership (apply_op e c op d))"
    by (rule apply_op_term_mono [OF "2.prems"])
  show ?case
  proof (cases "won e c op d")
    case None
    with IH mono show ?thesis by auto
  next
    case (Some x)
    with won_term [OF "2.prems", of c op d "fst x" "snd x"] IH show ?thesis by auto
  qed
qed simp

section \<open>A live lease excludes everybody else\<close>

text \<open>
  What the nodes of a cluster do while one of them leads from \<open>t\<close>: they campaign and renew with
  the one configured lease, at times between \<open>t\<close> and the end of that lease.
\<close>

fun within_reign :: "ts \<Rightarrow> dur \<Rightarrow> string \<Rightarrow> db_call \<times> store_op \<Rightarrow> bool" where
  "within_reign t lease n (c, OpResign m) \<longleftrightarrow> m \<noteq> n"
| "within_reign t lease n (c, OpRenew m l) \<longleftrightarrow> t \<le> now c \<and> l = lease"
| "within_reign t lease n (c, OpCampaign m l) \<longleftrightarrow> now c \<le> t + make_interval lease"
| "within_reign t lease n _ \<longleftrightarrow> True"

definition reigning :: "ts \<Rightarrow> string \<Rightarrow> int \<Rightarrow> db \<Rightarrow> bool" where
  "reigning until n tm d \<longleftrightarrow> lr_leader_id (leadership d) = n \<and> lr_term (leadership d) = tm
     \<and> until \<le> lr_lease_expires_at (leadership d)"

lemma apply_op_reigning:
  assumes "engine_ok e" and "within_reign t lease n (c, op)"
    and "reigning (t + make_interval lease) n tm d"
  shows "reigning (t + make_interval lease) n tm (apply_op e c op d)"
  by (rule apply_op_leadership_cases [OF assms(1), of c op d])
     (use assms(2,3) in \<open>auto simp: reigning_def\<close>)

lemma won_live:
  "now c \<le> lr_lease_expires_at (leadership d) \<Longrightarrow> won e c op d = None"
  by (cases op) (auto simp: Campaign_def scan_term_def exec_def stmt_result_def sql_campaign_def
      Let_def split: fault.splits sum.splits if_splits)

lemma won_reigns:
  assumes "engine_ok e" and "won e c (OpCampaign n lease) d = Some (n, tm)"
  shows "reigning (now c + make_interval lease) n tm (apply_op e c (OpCampaign n lease) d)"
proof -
  let ?d = "apply_op e c (OpCampaign n lease) d"
  have w: "tm = lr_term (leadership d) + 1" "lr_term (leadership ?d) = tm"
      "lr_leader_id (leadership ?d) = n"
    using won_term [OF assms] by auto
  have "lr_lease_expires_at (leadership ?d) = now c + make_interval lease"
  proof (rule apply_op_leadership_cases [OF assms(1), of c "OpCampaign n lease" d])
    assume "leadership ?d = leadership d"
    with w show ?thesis by simp
  qed simp_all
  with w show ?thesis by (simp add: reigning_def)
qed

text \<open>
  C5: At most one leader: after node \<open>n\<close> wins at time \<open>t\<close>, no campaign by anybody at any time up
  to \<open>t\<close> plus the lease wins, whatever else is done to the store in between, as long as \<open>n\<close>
  does not resign; and the row still names \<open>n\<close> and its term.
\<close>

theorem one_leader_per_lease:
  assumes "engine_ok e" and "won e c (OpCampaign n lease) d = Some (n, tm)"
    and "\<forall>x \<in> set xs. within_reign (now c) lease n x"
  shows "wins e xs (apply_op e c (OpCampaign n lease) d) = []
    \<and> reigning (now c + make_interval lease) n tm (run_ops e xs (apply_op e c (OpCampaign n lease) d))"
proof -
  let ?u = "now c + make_interval lease"
  have "wins e xs d' = [] \<and> reigning ?u n tm (run_ops e xs d')" if "reigning ?u n tm d'" for d'
    using assms(3) that
  proof (induction xs arbitrary: d')
    case (Cons x xs)
    obtain c' op where x: "x = (c', op)" by (cases x)
    with Cons.prems have "within_reign (now c) lease n (c', op)" by simp
    with Cons.prems have r: "reigning ?u n tm (apply_op e c' op d')"
      by (intro apply_op_reigning [OF assms(1)]) auto
    have "won e c' op d' = None"
      using won_live [of c' d' e op] Cons.prems x
      by (cases op) (auto simp: reigning_def simp del: won.simps(1))
    with Cons.IH [OF _ r] Cons.prems x show ?case by simp
  qed simp
  moreover have "reigning ?u n tm (apply_op e c (OpCampaign n lease) d)"
    using won_reigns [OF assms(1,2)] .
  ultimately show ?thesis by blast
qed

definition sample_reign :: "(db_call \<times> store_op) list" where
  "sample_reign = [(call_at 20, OpCampaign ''n2'' second), (call_at 500000, OpRenew ''n1'' second),
     (call_at 600000, OpCampaign ''n3'' second)]"

theorem one_leader_per_lease_witness:
  "wins seq_engine sample_reign
     (apply_op seq_engine (call_at 10) (OpCampaign ''n1'' second) db0) = []"
proof -
  have w: "won seq_engine (call_at 10) (OpCampaign ''n1'' second) db0 = Some (''n1'', 1)"
    by (simp add: Campaign_def scan_term_def exec_def stmt_result_def sql_campaign_def db0_def
        after_interval_total ts_in_range_def fits64_def second_def make_interval_def)
  have "\<forall>x \<in> set sample_reign. within_reign (now (call_at 10)) second ''n1'' x"
    by (simp add: sample_reign_def second_def make_interval_def)
  from one_leader_per_lease [OF seq_engine_ok w this] show ?thesis by (rule conjunct1)
qed

section \<open>The answers of the three calls\<close>

lemma campaign_answer:
  assumes "engine_ok e" and "flt c = NoFault" and "fits64 (lr_term (leadership d) + 1)"
    and "ts_in_range (now c + make_interval lease)" and "fits64 (make_interval lease)"
  shows "Campaign e c n lease d =
    (if lr_lease_expires_at (leadership d) < now c
     then (d\<lparr>leadership := \<lparr>lr_leader_id = n, lr_term = lr_term (leadership d) + 1,
             lr_lease_expires_at = now c + make_interval lease\<rparr>\<rparr>,
           Inr (lr_term (leadership d) + 1, True))
     else (d, Inr (0, False)))"
  using assms
  by (simp add: Campaign_def scan_term_def exec_ok stmt_state_def stmt_result_def sql_campaign_def
      after_interval_total Let_def)

text \<open>
  With the database answering and in range, \<open>Campaign\<close> wins exactly when the current lease has
  expired, taking the row with the next term, and otherwise changes nothing and answers not
  won; \<open>RenewLeadership\<close> succeeds exactly for the node the row names while its lease is live,
  keeps the term and moves only the expiry; past expiry it answers false and changes nothing,
  so a stalled leader cannot resurrect its own lease.
\<close>

lemma election_answers:
  assumes "engine_ok e" and "flt c = NoFault" and "fits64 (lr_term (leadership d) + 1)"
    and "ts_in_range (now c + make_interval lease)" and "fits64 (make_interval lease)"
  shows "Campaign e c n lease d =
      (if lr_lease_expires_at (leadership d) < now c
       then (d\<lparr>leadership := \<lparr>lr_leader_id = n, lr_term = lr_term (leadership d) + 1,
               lr_lease_expires_at = now c + make_interval lease\<rparr>\<rparr>,
             Inr (lr_term (leadership d) + 1, True))
       else (d, Inr (0, False)))
    \<and> RenewLeadership e c n lease d =
      (if lr_leader_id (leadership d) = n \<and> now c \<le> lr_lease_expires_at (leadership d)
       then (d\<lparr>leadership := (leadership d)\<lparr>lr_lease_expires_at := now c + make_interval lease\<rparr>\<rparr>,
             Inr (lr_term (leadership d), True))
       else (d, Inr (0, False)))"
  using assms campaign_answer [OF assms]
  by (simp add: RenewLeadership_def scan_term_def exec_ok stmt_state_def stmt_result_def
      sql_renew_def after_interval_total Let_def)

text \<open>
  Resigning hands over at once: after the leader resigns, the very next campaign, by any node
  and at any time after the epoch, wins, with the term raised by exactly one; a node that does
  not lead changes nothing by resigning.
\<close>

lemma resign_hands_over:
  assumes "engine_ok e" and "flt c = NoFault" and "flt c' = NoFault" and "0 < now c'"
    and "fits64 (lr_term (leadership d) + 1)"
    and "ts_in_range (now c' + make_interval lease)" and "fits64 (make_interval lease)"
  shows "snd (ResignLeadership c n d) = None
    \<and> (if lr_leader_id (leadership d) = n
       then snd (Campaign e c' m lease (fst (ResignLeadership c n d))) =
              Inr (lr_term (leadership d) + 1, True)
       else fst (ResignLeadership c n d) = d)"
proof -
  let ?d = "d\<lparr>leadership := (leadership d)\<lparr>lr_leader_id := '''', lr_lease_expires_at := 0\<rparr>\<rparr>"
  have "ResignLeadership c n d = (if lr_leader_id (leadership d) = n then ?d else d, None)"
    using assms(2) by (simp add: ResignLeadership_def exec_ok stmt_state_def stmt_result_def
        sql_resign_def Let_def)
  moreover have "snd (Campaign e c' m lease ?d) = Inr (lr_term (leadership d) + 1, True)"
    using campaign_answer [OF assms(1,3), of ?d lease m] assms by simp
  ultimately show ?thesis by simp
qed

section \<open>Opening the store\<close>

lemma add_column_cols [simp]: "set (fst (add_column n f tbl)) = insert n (set (fst tbl))"
  by (auto simp: add_column_def split: prod.split)

lemma add_column_known: "n \<in> set (fst tbl) \<Longrightarrow> add_column n f tbl = tbl"
  by (cases tbl) (simp add: add_column_def)

definition added_columns :: "string set" where
  "added_columns = {''next_run_at'', ''worker_id'', ''lease_expires_at'', ''claim_term''}"

lemma migrations_cols: "set (fst (migrations tbl)) = added_columns \<union> set (fst tbl)"
  by (auto simp: migrations_def added_columns_def apsnd_def map_prod_def split: prod.split)
     (metis add_column_cols fst_conv insert_iff)+

lemma migrations_known:
  "added_columns \<subseteq> set (fst tbl) \<Longrightarrow> migrations tbl = apsnd (map backfill_row) tbl"
  by (simp add: migrations_def added_columns_def add_column_known)

text \<open>A row the migrations leave alone: it has a due time, and a lease if it is processing.\<close>

definition migrated :: "job_row \<Rightarrow> bool" where
  "migrated r \<longleftrightarrow> jr_next_run_at r \<noteq> None
     \<and> (jr_state r = ''processing'' \<longrightarrow> jr_lease_expires_at r \<noteq> None)"

lemma backfill_row_migrated: "migrated (backfill_row r)"
  by (auto simp: migrated_def backfill_row_def Let_def)

lemma backfill_row_id: "migrated r \<Longrightarrow> backfill_row r = r"
  by (auto simp: migrated_def backfill_row_def Let_def)

lemma migrations_rows: "r \<in> set (snd (migrations tbl)) \<Longrightarrow> migrated r"
  by (auto simp: migrations_def backfill_row_migrated)

text \<open>The database after a start without faults.\<close>

definition opened :: "raw_db \<Rightarrow> raw_db" where
  "opened d = d\<lparr>
     raw_jobs := Some (migrations (case raw_jobs d of None \<Rightarrow> ([], []) | Some tbl \<Rightarrow> tbl)),
     raw_leadership := Some (Some (case raw_leadership d of Some (Some l) \<Rightarrow> l | _ \<Rightarrow> seed_leadership))\<rparr>"

lemma NewPostgresStore_opened:
  assumes "flt c1 = NoFault" "flt c2 = NoFault" "flt c3 = NoFault"
  shows "NewPostgresStore None c1 c2 c3 d = (opened d, None)"
  using assms
  by (simp add: NewPostgresStore_def exec_ok stmt_state_def stmt_result_def sql_schema_def
      sql_migrations_def sql_leadership_schema_def opened_def split: option.split)

lemma opened_twice: "opened (opened d) = opened d"
proof -
  define tbl where "tbl = migrations (case raw_jobs d of None \<Rightarrow> ([], []) | Some tbl \<Rightarrow> tbl)"
  have "added_columns \<subseteq> set (fst tbl)" unfolding tbl_def by (subst migrations_cols) simp
  then have "migrations tbl = apsnd (map backfill_row) tbl" by (rule migrations_known)
  moreover have "map backfill_row (snd tbl) = snd tbl"
    unfolding tbl_def by (intro map_idI backfill_row_id) (erule migrations_rows)
  then have "apsnd (map backfill_row) tbl = tbl" by (intro prod_eqI) simp_all
  ultimately have "migrations tbl = tbl" by simp
  then show ?thesis by (simp add: opened_def flip: tbl_def)
qed

text \<open>
  C36: Opening the store always ends with a usable database: whatever tables, columns and rows it
  finds, a start without faults succeeds, every table and column exists, every job has a due
  time, every processing job has a lease (so a job left over from before leases can be swept),
  and the leadership row is the one that was there or the seed row; opening it again changes
  nothing.
\<close>

theorem open_store_ready:
  assumes "flt c1 = NoFault" "flt c2 = NoFault" "flt c3 = NoFault"
  shows "\<exists>raw d. NewPostgresStore None c1 c2 c3 raw0 = (raw, None) \<and> db_of_raw raw = Some d
    \<and> (\<forall>r \<in> set (jobs d). jr_next_run_at r \<noteq> None
         \<and> (jr_state r = ''processing'' \<longrightarrow> jr_lease_expires_at r \<noteq> None))
    \<and> leadership d = (case raw_leadership raw0 of Some (Some l) \<Rightarrow> l | _ \<Rightarrow> seed_leadership)
    \<and> NewPostgresStore None c1 c2 c3 raw = (raw, None)"
proof -
  define tbl where "tbl = migrations (case raw_jobs raw0 of None \<Rightarrow> ([], []) | Some tbl \<Rightarrow> tbl)"
  define l where "l = (case raw_leadership raw0 of Some (Some l) \<Rightarrow> l | _ \<Rightarrow> seed_leadership)"
  have cols: "added_columns \<subseteq> set (fst tbl)" unfolding tbl_def by (subst migrations_cols) simp
  then have "db_of_raw (opened raw0) = Some \<lparr>jobs = snd tbl, leadership = l\<rparr>"
    by (cases tbl) (simp add: db_of_raw_def opened_def added_columns_def flip: tbl_def l_def)
  moreover have "\<forall>r \<in> set (snd tbl). migrated r" using migrations_rows by (simp add: tbl_def)
  ultimately show ?thesis
    using NewPostgresStore_opened [OF assms] opened_twice
    by (intro exI [of _ "opened raw0"] exI [of _ "\<lparr>jobs = snd tbl, leadership = l\<rparr>"])
       (simp add: migrated_def l_def)
qed

theorem open_store_ready_witness:
  "\<exists>raw d. NewPostgresStore None (call_at 1) (call_at 2) (call_at 3)
      \<lparr>raw_jobs = Some ([], [job1]), raw_leadership = None\<rparr> = (raw, None)
    \<and> db_of_raw raw = Some d \<and> leadership d = seed_leadership"
  using open_store_ready [of "call_at 1" "call_at 2" "call_at 3"
      "\<lparr>raw_jobs = Some ([], [job1]), raw_leadership = None\<rparr>"]
  by auto

end
