(* ===== verification/Queue_Policy.thy ===== *)
theory Queue_Policy
  imports Leader_Guarantees
begin

text \<open>
  \<open>internal/queue/queue.go\<close>: the queue holds the store and the two policy durations and passes
  every call on. The store's handle is the engine it was opened on; the database itself is
  the state every call takes and returns. The second part states the store interface the
  server relies on as a locale and interprets it on the PostgreSQL store.
\<close>

section \<open>The queue\<close>

definition DefaultRetryBaseDelay :: dur where
  "DefaultRetryBaseDelay = 1 * second"

definition DefaultLeaseFor :: dur where
  "DefaultLeaseFor = 30 * second"

record Options =
  opt_Store :: "engine option"
  opt_RetryBaseDelay :: dur
  opt_LeaseFor :: dur

record Queue =
  q_store :: engine
  q_retryDelay :: dur
  q_leaseFor :: dur

definition Queue_New :: "Options \<Rightarrow> goerror + Queue" where
  "Queue_New opts = (case opt_Store opts of
      None \<Rightarrow> Inl (ErrText ''Store is required'')
    | Some s \<Rightarrow>
        let delay = (if opt_RetryBaseDelay opts \<le> 0 then DefaultRetryBaseDelay
                     else opt_RetryBaseDelay opts);
            lease = (if opt_LeaseFor opts \<le> 0 then DefaultLeaseFor else opt_LeaseFor opts)
        in Inr \<lparr>q_store = s, q_retryDelay = delay, q_leaseFor = lease\<rparr>)"

definition Queue_Enqueue :: "Queue \<Rightarrow> db_call \<Rightarrow> Job \<Rightarrow> db \<Rightarrow> db \<times> goerror option" where
  "Queue_Enqueue q c j d = (case CreateJob c j d of
      (d', Some err) \<Rightarrow> (d', Some (Wrap ''persist job'' err))
    | (d', None) \<Rightarrow> (d', None))"

definition Queue_Dequeue ::
  "Queue \<Rightarrow> db_call \<Rightarrow> int \<Rightarrow> string \<Rightarrow> db \<Rightarrow> db \<times> (goerror + Job option)" where
  "Queue_Dequeue q c tm workerID d = DequeueJob (q_store q) c tm workerID (q_leaseFor q) d"

definition Queue_Complete :: "Queue \<Rightarrow> db_call \<Rightarrow> string \<Rightarrow> string \<Rightarrow> db \<Rightarrow> db \<times> goerror option" where
  "Queue_Complete q c jobID workerID d = Complete c jobID workerID d"

definition Queue_Fail ::
  "Queue \<Rightarrow> db_call \<Rightarrow> string \<Rightarrow> string \<Rightarrow> string \<Rightarrow> db \<Rightarrow> db \<times> (goerror + bool)" where
  "Queue_Fail q c jobID workerID errMsg d =
     FailJob (q_store q) c jobID workerID errMsg (q_retryDelay q) d"

definition Queue_Heartbeat ::
  "Queue \<Rightarrow> db_call \<Rightarrow> string \<Rightarrow> string \<Rightarrow> db \<Rightarrow> db \<times> (goerror + bool)" where
  "Queue_Heartbeat q c jobID workerID d =
     HeartbeatJob (q_store q) c jobID workerID (q_leaseFor q) d"

definition Queue_LeaseFor :: "Queue \<Rightarrow> dur" where
  "Queue_LeaseFor q = q_leaseFor q"

definition Queue_NextVisible :: "Queue \<Rightarrow> db_call \<Rightarrow> db \<Rightarrow> db \<times> (goerror + dur \<times> bool)" where
  "Queue_NextVisible q c d = NextVisible (q_store q) c d"

definition Queue_ReapExpiredLeases :: "Queue \<Rightarrow> db_call \<Rightarrow> int \<Rightarrow> db \<Rightarrow> db \<times> (goerror + nat)" where
  "Queue_ReapExpiredLeases q c tm d = ReapExpiredLeases c tm d"

definition Queue_Campaign ::
  "Queue \<Rightarrow> db_call \<Rightarrow> string \<Rightarrow> dur \<Rightarrow> db \<Rightarrow> db \<times> (goerror + int \<times> bool)" where
  "Queue_Campaign q c leaderID lease d = Campaign (q_store q) c leaderID lease d"

definition Queue_RenewLeadership ::
  "Queue \<Rightarrow> db_call \<Rightarrow> string \<Rightarrow> dur \<Rightarrow> db \<Rightarrow> db \<times> (goerror + int \<times> bool)" where
  "Queue_RenewLeadership q c leaderID lease d = RenewLeadership (q_store q) c leaderID lease d"

definition Queue_ResignLeadership :: "Queue \<Rightarrow> db_call \<Rightarrow> string \<Rightarrow> db \<Rightarrow> db \<times> goerror option" where
  "Queue_ResignLeadership q c leaderID d = ResignLeadership c leaderID d"

lemmas queue_defs = Queue_Enqueue_def Queue_Dequeue_def Queue_Complete_def Queue_Fail_def
  Queue_Heartbeat_def Queue_LeaseFor_def Queue_NextVisible_def Queue_ReapExpiredLeases_def
  Queue_Campaign_def Queue_RenewLeadership_def Queue_ResignLeadership_def

text \<open>
  A queue always has usable policy: whatever durations it is given, a queue that is created
  has a positive backoff base and a positive lease, the given ones where they are positive;
  only a missing store is an error.
\<close>

lemma Queue_New_policy:
  "(case Queue_New opts of
      Inl err \<Rightarrow> opt_Store opts = None \<and> err = ErrText ''Store is required''
    | Inr q \<Rightarrow> opt_Store opts = Some (q_store q) \<and> 0 < q_retryDelay q \<and> 0 < q_leaseFor q
        \<and> (0 < opt_RetryBaseDelay opts \<longrightarrow> q_retryDelay q = opt_RetryBaseDelay opts)
        \<and> (0 < opt_LeaseFor opts \<longrightarrow> q_leaseFor q = opt_LeaseFor opts))"
  by (simp add: Queue_New_def Let_def DefaultRetryBaseDelay_def DefaultLeaseFor_def second_def
      split: option.split)

definition queue1 :: Queue where
  "queue1 = \<lparr>q_store = seq_engine, q_retryDelay = DefaultRetryBaseDelay, q_leaseFor = DefaultLeaseFor\<rparr>"

section \<open>The interface the server relies on\<close>

text \<open>
  A store whose reports are fenced: at most one worker holds a job; a report by anybody else is
  answered with \<open>ErrLeaseLost\<close> (a heartbeat with false) and changes nothing; an accepted report
  ends the hold, and no operation touches who holds another job.
\<close>

locale fenced_store =
  fixes inv :: "'d \<Rightarrow> bool"
    and holder :: "'d \<Rightarrow> string \<Rightarrow> string option"
    and complete :: "'c \<Rightarrow> string \<Rightarrow> string \<Rightarrow> 'd \<Rightarrow> 'd \<times> goerror option"
    and fail :: "'c \<Rightarrow> string \<Rightarrow> string \<Rightarrow> 'd \<Rightarrow> 'd \<times> (goerror + bool)"
    and beat :: "'c \<Rightarrow> string \<Rightarrow> string \<Rightarrow> 'd \<Rightarrow> 'd \<times> (goerror + bool)"
  assumes complete_held: "inv d \<Longrightarrow> holder d i = Some w \<Longrightarrow>
      snd (complete c i w d) = None \<and> inv (fst (complete c i w d))
      \<and> holder (fst (complete c i w d)) = (holder d)(i := None)"
    and complete_other: "inv d \<Longrightarrow> holder d i \<noteq> Some w \<Longrightarrow> complete c i w d = (d, Some ErrLeaseLost)"
    and fail_held: "inv d \<Longrightarrow> holder d i = Some w \<Longrightarrow>
      fst (fail c i w d) = d \<and> isl (snd (fail c i w d)) \<and> snd (fail c i w d) \<noteq> Inl ErrLeaseLost
      \<or> \<not> isl (snd (fail c i w d)) \<and> inv (fst (fail c i w d))
        \<and> holder (fst (fail c i w d)) = (holder d)(i := None)"
    and fail_other: "inv d \<Longrightarrow> holder d i \<noteq> Some w \<Longrightarrow> fail c i w d = (d, Inl ErrLeaseLost)"
    and beat_holder: "inv d \<Longrightarrow> inv (fst (beat c i w d)) \<and> holder (fst (beat c i w d)) = holder d"
    and beat_other: "inv d \<Longrightarrow> holder d i \<noteq> Some w \<Longrightarrow> beat c i w d = (d, Inr False)"
begin

text \<open>A report is accepted only from the holder, and only once.\<close>

lemma accepted_was_held:
  "inv d \<Longrightarrow> snd (complete c i w d) = None \<Longrightarrow> holder d i = Some w"
  using complete_other by fastforce

lemma accepted_once:
  assumes "inv d" and "snd (complete c i w d) = None"
  shows "complete c' i w' (fst (complete c i w d)) = (fst (complete c i w d), Some ErrLeaseLost)
    \<and> fail c' i w' (fst (complete c i w d)) = (fst (complete c i w d), Inl ErrLeaseLost)
    \<and> beat c' i w' (fst (complete c i w d)) = (fst (complete c i w d), Inr False)"
  using complete_held [OF assms(1) accepted_was_held [OF assms], of c]
  by (auto intro: complete_other fail_other beat_other)

lemma failed_once:
  assumes "inv d" and "\<not> isl (snd (fail c i w d))"
  shows "complete c' i w' (fst (fail c i w d)) = (fst (fail c i w d), Some ErrLeaseLost)
    \<and> fail c' i w' (fst (fail c i w d)) = (fst (fail c i w d), Inl ErrLeaseLost)
    \<and> beat c' i w' (fst (fail c i w d)) = (fst (fail c i w d), Inr False)"
proof -
  have h: "holder d i = Some w" using assms fail_other [OF assms(1), of i w c] by force
  with fail_held [OF assms(1) h, of c] assms(2) show ?thesis
    by (auto intro: complete_other fail_other beat_other)
qed

end

section \<open>The PostgreSQL store provides it\<close>

definition calm :: "db_call \<Rightarrow> db_call" where
  "calm c = c\<lparr>flt := NoFault\<rparr>"

lemma calm_simps [simp]: "flt (calm c) = NoFault" "now (calm c) = now c" "locked (calm c) = locked c"
  by (simp_all add: calm_def)

lemma calm_id: "flt c = NoFault \<Longrightarrow> calm c = c"
  by (simp add: calm_def)

definition holder_of :: "db \<Rightarrow> string \<Rightarrow> string option" where
  "holder_of d i = (case job_of d i of None \<Rightarrow> None
     | Some r \<Rightarrow> if jr_state r = ''processing'' then Some (jr_worker_id r) else None)"

lemma holds_lease_holder: "holds_lease d i w \<longleftrightarrow> holder_of d i = Some w"
  by (auto simp: holds_lease_def holder_of_def split: option.split)

lemma holder_of_set_job:
  "jr_id r = i \<Longrightarrow> job_of d i \<noteq> None \<Longrightarrow> holder_of (set_job i r d) =
     (holder_of d)(i := (if jr_state r = ''processing'' then Some (jr_worker_id r) else None))"
  by (auto simp: holder_of_def fun_eq_iff job_of_set_job)

lemma db_ok_ids: "db_ok d \<Longrightarrow> distinct (map jr_id (jobs d))"
  by (simp add: db_ok_def)

lemma db_ok_set_job:
  assumes "db_ok d" and "job_ok r" and "jr_id r = i"
  shows "db_ok (set_job i r d)"
proof (rule db_okI)
  show "distinct (map jr_id (jobs (set_job i r d)))"
    using assms by (simp add: ids_set_job db_ok_ids)
  show "job_ok x" if "job_of (set_job i r d) k = Some x" for k x
    using that assms by (auto simp: job_of_set_job intro: db_ok_row split: if_splits)
qed

lemma pg_other:
  assumes "db_ok d" and "holder_of d i \<noteq> Some w"
  shows "Complete (calm c) i w d = (d, Some ErrLeaseLost)"
    and "FailJob e (calm c) i w m b d = (d, Inl ErrLeaseLost)"
    and "HeartbeatJob e (calm c) i w lease d = (d, Inr False)"
  using fenced_exec [OF db_ok_ids [OF assms(1)], of "calm c" i w] assms(2)
  by (simp_all add: Complete_def FailJob_def HeartbeatJob_def RowsAffected_def holds_lease_holder)

lemma pg_held:
  assumes "db_ok d" and "holder_of d i = Some w"
  obtains r where "job_of d i = Some r" "jr_id r = i" "jr_state r = ''processing''"
    "jr_worker_id r = w" "job_ok r"
    "\<forall>c f. exec (calm c) (update_jobs (held_by i w) f) d = (case f r of
        Inl x \<Rightarrow> (d, Inl (PgError x)) | Inr r' \<Rightarrow> (set_job i r' d, Inr [r']))"
proof -
  from assms(2) have h: "holds_lease d i w" by (simp add: holds_lease_holder)
  then obtain r where r: "job_of d i = Some r" "jr_id r = i" "jr_worker_id r = w"
      "jr_state r = ''processing''"
    by (rule holds_leaseE)
  show thesis
    by (rule that [OF r(1,2,4,3) db_ok_row [OF assms(1) r(1)]])
       (simp add: fenced_exec [OF db_ok_ids [OF assms(1)]] h r(1))
qed

lemma pg_complete_held:
  assumes "db_ok d" and "holder_of d i = Some w"
  shows "snd (Complete (calm c) i w d) = None \<and> db_ok (fst (Complete (calm c) i w d))
    \<and> holder_of (fst (Complete (calm c) i w d)) = (holder_of d)(i := None)"
proof -
  from assms obtain r where r: "job_of d i = Some r" "jr_id r = i" "jr_state r = ''processing''"
      "jr_worker_id r = w" "job_ok r"
    and ex: "\<forall>c f. exec (calm c) (update_jobs (held_by i w) f) d = (case f r of
        Inl x \<Rightarrow> (d, Inl (PgError x)) | Inr r' \<Rightarrow> (set_job i r' d, Inr [r']))"
    by (rule pg_held)
  obtain r' where r': "finish_row (now c) r = Inr r'" by (simp add: finish_row_def)
  then have "job_ok r'" "jr_id r' = i" "jr_state r' = ''done''"
    using finish_row_ok [OF r' r(3,5)] r(2) by (auto simp: finish_row_def)
  with r(1) r' assms(1) show ?thesis
    by (simp add: Complete_def ex RowsAffected_def db_ok_set_job holder_of_set_job)
qed

lemma pg_fail_held:
  assumes "db_ok d" and "holder_of d i = Some w"
  shows "fst (FailJob e (calm c) i w m b d) = d \<and> isl (snd (FailJob e (calm c) i w m b d))
      \<and> snd (FailJob e (calm c) i w m b d) \<noteq> Inl ErrLeaseLost
    \<or> \<not> isl (snd (FailJob e (calm c) i w m b d)) \<and> db_ok (fst (FailJob e (calm c) i w m b d))
      \<and> holder_of (fst (FailJob e (calm c) i w m b d)) = (holder_of d)(i := None)"
proof -
  from assms obtain r where r: "job_of d i = Some r" "jr_id r = i" "jr_state r = ''processing''"
      "jr_worker_id r = w" "job_ok r"
    and ex: "\<forall>c f. exec (calm c) (update_jobs (held_by i w) f) d = (case f r of
        Inl x \<Rightarrow> (d, Inl (PgError x)) | Inr r' \<Rightarrow> (set_job i r' d, Inr [r']))"
    by (rule pg_held)
  show ?thesis
  proof (cases "fail_row e (now c) m b r")
    case (Inl x)
    then show ?thesis by (simp add: FailJob_def ex)
  next
    case (Inr r')
    then have "job_ok r'" "jr_id r' = i" "jr_state r' \<noteq> ''processing''"
      using fail_row_ok [OF Inr r(3,5)] fail.key_kept [OF Inr] r(2)
      by (auto elim!: fail_row_Inr simp: retryDecision_def split: if_splits)
    with Inr r(1) assms(1) show ?thesis
      by (simp add: FailJob_def ex db_ok_set_job holder_of_set_job)
  qed
qed

lemma pg_beat:
  assumes "db_ok d"
  shows "db_ok (fst (HeartbeatJob e (calm c) i w lease d))
    \<and> holder_of (fst (HeartbeatJob e (calm c) i w lease d)) = holder_of d"
proof (cases "holder_of d i = Some w")
  case False
  with pg_other [OF assms] assms show ?thesis by simp
next
  case True
  with assms obtain r where r: "job_of d i = Some r" "jr_id r = i" "jr_state r = ''processing''"
      "jr_worker_id r = w" "job_ok r"
    and ex: "\<forall>c f. exec (calm c) (update_jobs (held_by i w) f) d = (case f r of
        Inl x \<Rightarrow> (d, Inl (PgError x)) | Inr r' \<Rightarrow> (set_job i r' d, Inr [r']))"
    by (rule pg_held)
  show ?thesis
  proof (cases "beat_row e (now c) lease r")
    case (Inl x)
    then show ?thesis using assms by (simp add: HeartbeatJob_def ex)
  next
    case (Inr r')
    then have "job_ok r'" "jr_id r' = i" "jr_state r' = ''processing''" "jr_worker_id r' = w"
      using beat_row_ok [OF Inr r(3,5)] r(2-4) by (auto simp: beat_row_def split: sum.splits)
    with Inr r(1) assms True show ?thesis
      by (simp add: HeartbeatJob_def ex db_ok_set_job holder_of_set_job fun_upd_idem)
  qed
qed

interpretation pg: fenced_store db_ok holder_of
  "\<lambda>c. Complete (calm c)" "\<lambda>c i w. FailJob e (calm c) i w m b" "\<lambda>c i w. HeartbeatJob e (calm c) i w lease"
  for e and m and b and lease
  by unfold_locales (fact pg_complete_held pg_other pg_fail_held pg_beat)+



end
