(* ===== verification/Leadership_State.thy ===== *)
theory Leadership_State
  imports Queue_Policy
begin

text \<open>
  \<open>internal/server/leadership.go\<close> without its loop: the cancellable contexts it makes, the
  \<open>Leadership\<close> struct with \<open>becomeLead\<close>, \<open>demote\<close> and the getters, the invariant that ties a
  reign to its context, and the reaper a reign runs.
\<close>

section \<open>What a call meets\<close>

text \<open>
  A server is one of several. Before one of its calls reaches the database, other goroutines
  and other nodes may have run any store operations: \<open>env_before\<close>.
\<close>

record db_env =
  env_before :: "(db_call \<times> store_op) list"
  env_call :: db_call

definition meet :: "engine \<Rightarrow> ('a) db_env_scheme \<Rightarrow> db \<Rightarrow> db" where
  "meet e x d = run_ops e (env_before x) d"

section \<open>Contexts\<close>

text \<open>
  The contexts the leadership makes with \<open>context.WithCancel(context.Background())\<close>: how many
  there are, and which have been cancelled. A context is named by its number.
\<close>

record ctxs =
  ctx_made :: nat
  ctx_cancelled :: "nat list"

definition WithCancel :: "ctxs \<Rightarrow> nat \<times> ctxs" where
  "WithCancel h = (ctx_made h, h\<lparr>ctx_made := Suc (ctx_made h)\<rparr>)"

definition cancel_ctx :: "nat \<Rightarrow> ctxs \<Rightarrow> ctxs" where
  "cancel_ctx c h = h\<lparr>ctx_cancelled := c # ctx_cancelled h\<rparr>"

definition ctx_done :: "ctxs \<Rightarrow> nat \<Rightarrow> bool" where
  "ctx_done h c \<longleftrightarrow> c \<in> set (ctx_cancelled h)"

section \<open>Leadership\<close>

record Leadership =
  ld_reapEvery :: dur
  ld_isLead :: bool
  ld_term :: int
  ld_leadCtx :: nat
  ld_cancel :: "nat option"
  ld_stopped :: bool

definition newLeadership :: "dur \<Rightarrow> ctxs \<Rightarrow> Leadership \<times> ctxs" where
  "newLeadership reapEvery h = (case WithCancel h of (ctx, h') \<Rightarrow>
     (\<lparr>ld_reapEvery = reapEvery, ld_isLead = False, ld_term = 0, ld_leadCtx = ctx,
       ld_cancel = None, ld_stopped = False\<rparr>, cancel_ctx ctx h'))"

definition becomeLead :: "int \<Rightarrow> Leadership \<times> ctxs \<Rightarrow> Leadership \<times> ctxs" where
  "becomeLead tm lh = (case lh of (l, h) \<Rightarrow> case WithCancel h of (ctx, h') \<Rightarrow>
     (l\<lparr>ld_term := tm, ld_leadCtx := ctx, ld_cancel := Some ctx, ld_isLead := True\<rparr>, h'))"

text \<open>The section of \<open>demote\<close> under the lock, and the cancellation after it.\<close>

definition demote_locked :: "Leadership \<Rightarrow> Leadership \<times> nat option" where
  "demote_locked l = (l\<lparr>ld_cancel := None, ld_isLead := False\<rparr>, ld_cancel l)"

definition demote :: "Leadership \<times> ctxs \<Rightarrow> Leadership \<times> ctxs" where
  "demote lh = (case lh of (l, h) \<Rightarrow> case demote_locked l of (l', cancel) \<Rightarrow>
     (l', case cancel of None \<Rightarrow> h | Some c \<Rightarrow> cancel_ctx c h))"

definition Leading :: "Leadership \<Rightarrow> bool" where
  "Leading l = ld_isLead l"

definition LeadCtx :: "Leadership \<Rightarrow> nat" where
  "LeadCtx l = ld_leadCtx l"

definition Term :: "Leadership \<Rightarrow> int" where
  "Term l = ld_term l"

lemmas leadership_defs = WithCancel_def cancel_ctx_def ctx_done_def newLeadership_def
  becomeLead_def demote_locked_def demote_def Leading_def LeadCtx_def Term_def

section \<open>A reign and its context\<close>

text \<open>
  Between the steps of the loop: the node leads exactly while the context it hands out is
  live, it holds that context's cancel function, and every other context is cancelled, so
  nothing of an earlier reign is alive.
\<close>

definition reign_ok :: "Leadership \<times> ctxs \<Rightarrow> bool" where
  "reign_ok lh \<longleftrightarrow> (case lh of (l, h) \<Rightarrow>
     LeadCtx l < ctx_made h
   \<and> list_all (\<lambda>c. c < ctx_made h) (ctx_cancelled h)
   \<and> Leading l = (\<not> ctx_done h (LeadCtx l))
   \<and> ld_cancel l = (if Leading l then Some (LeadCtx l) else None)
   \<and> (\<forall>c < ctx_made h. c = LeadCtx l \<or> ctx_done h c))"

lemma newLeadership_ok:
  "\<forall>c < ctx_made h. ctx_done h c \<Longrightarrow> list_all (\<lambda>c. c < ctx_made h) (ctx_cancelled h) \<Longrightarrow>
     reign_ok (newLeadership n h) \<and> \<not> Leading (fst (newLeadership n h))"
  by (auto simp: reign_ok_def leadership_defs list_all_iff less_Suc_eq)

lemma becomeLead_ok:
  "reign_ok (l, h) \<Longrightarrow> \<not> Leading l \<Longrightarrow>
     reign_ok (becomeLead tm (l, h)) \<and> Leading (fst (becomeLead tm (l, h)))
   \<and> Term (fst (becomeLead tm (l, h))) = tm"
  by (auto simp: reign_ok_def leadership_defs list_all_iff less_Suc_eq)

lemma demote_ok:
  "reign_ok (l, h) \<Longrightarrow> reign_ok (demote (l, h)) \<and> \<not> Leading (fst (demote (l, h)))
   \<and> ctx_done (snd (demote (l, h))) (LeadCtx l)"
  by (auto simp: reign_ok_def leadership_defs list_all_iff)

lemma demote_idle: "reign_ok (l, h) \<Longrightarrow> \<not> Leading l \<Longrightarrow> demote (l, h) = (l, h)"
  by (simp add: reign_ok_def leadership_defs)

lemma demote_simps [simp]:
  "Term (fst (demote (l, h))) = Term l" "LeadCtx (fst (demote (l, h))) = LeadCtx l"
  "Leading (fst (demote (l, h))) = False" "ctx_made (snd (demote (l, h))) = ctx_made h"
  "ld_stopped (fst (demote (l, h))) = ld_stopped l"
  by (simp_all add: leadership_defs split: option.split)

section \<open>The reaper\<close>

text \<open>
  One round of \<open>reapExpiredLeases\<close>: what its sweep meets, the leadership whose \<open>Term()\<close> the sweep
  reads, whether the reign's context has ended when the sweep comes back, and whether the
  \<open>select\<close> takes the context's \<open>Done\<close> rather than the ticker.
\<close>

record sweep = db_env +
  sw_lead :: Leadership
  sw_ctx_err :: bool
  sw_done :: bool

text \<open>The rounds so far, and whether the goroutine has returned.\<close>

fun reapExpiredLeases :: "Queue \<Rightarrow> sweep list \<Rightarrow> db \<Rightarrow> db \<times> bool" where
  "reapExpiredLeases q [] d = (d, False)"
| "reapExpiredLeases q (s # ss) d =
     (case Queue_ReapExpiredLeases q (env_call s) (Term (sw_lead s)) (meet (q_store q) s d) of
        (d', res) \<Rightarrow>
          if isl res \<and> sw_ctx_err s then (d', True)
          else if sw_done s then (d', True)
          else reapExpiredLeases q ss d')"

end
