(* ===== verification/Elections.thy ===== *)
theory Elections
  imports Leadership_State
begin

text \<open>
  \<open>internal/server/election.go\<close> and the loop of \<open>leadership.go\<close>: the \<open>Election\<close> interface as a
  record of operations, \<open>Run\<close> and \<open>resign\<close> against that interface, and the PostgreSQL election.
  A blocking operation is given what it meets while it blocks and returns \<^const>\<open>None\<close> as long
  as it has not returned.
\<close>

section \<open>The Election interface\<close>

record ('s, 'c, 'h, 'r) Election =
  el_Campaign :: "'c \<Rightarrow> 's \<Rightarrow> 's \<times> (goerror + int) option"
  el_Hold :: "'h \<Rightarrow> 's \<Rightarrow> 's \<times> bool option"
  el_Resign :: "'r \<Rightarrow> 's \<Rightarrow> 's \<times> goerror option"

section \<open>The leadership loop\<close>

text \<open>
  The state of one node: what the election mechanism works on, the leadership, its contexts,
  the contexts of the reapers started so far and the terms announced in the log, newest first.
\<close>

record 's node =
  nd_elect :: 's
  nd_lead :: Leadership
  nd_ctxs :: ctxs
  nd_reapers :: "nat list"
  nd_terms :: "int list"

definition on_lead :: "(Leadership \<times> ctxs \<Rightarrow> Leadership \<times> ctxs) \<Rightarrow> 's node \<Rightarrow> 's node" where
  "on_lead f st = (case f (nd_lead st, nd_ctxs st) of (l, h) \<Rightarrow> st\<lparr>nd_lead := l, nd_ctxs := h\<rparr>)"

definition start_reign :: "int \<Rightarrow> 's node \<Rightarrow> 's node" where
  "start_reign tm st = (let st1 = on_lead (becomeLead tm) (st\<lparr>nd_terms := tm # nd_terms st\<rparr>)
     in st1\<lparr>nd_reapers := LeadCtx (nd_lead st1) # nd_reapers st1\<rparr>)"

text \<open>
  The \<open>for\<close> loop of \<open>Run\<close>, one list element per iteration: whether the context has ended when
  the loop tests it, and what \<open>Campaign\<close> and \<open>Hold\<close> meet. The flag says whether the loop was left.
\<close>

fun Run_loop :: "('s, 'c, 'h, 'r) Election \<Rightarrow> (bool \<times> 'c \<times> 'h) list \<Rightarrow> 's node \<Rightarrow> 's node \<times> bool" where
  "Run_loop el [] st = (st, False)"
| "Run_loop el ((stop, ce, he) # es) st =
     (if stop then (st, True)
      else case el_Campaign el ce (nd_elect st) of
        (s, None) \<Rightarrow> (st\<lparr>nd_elect := s\<rparr>, False)
      | (s, Some (Inl err)) \<Rightarrow> (st\<lparr>nd_elect := s\<rparr>, True)
      | (s, Some (Inr tm)) \<Rightarrow>
          let st1 = start_reign tm (st\<lparr>nd_elect := s\<rparr>) in
          (case el_Hold el he (nd_elect st1) of
             (s', None) \<Rightarrow> (st1\<lparr>nd_elect := s'\<rparr>, False)
           | (s', Some False) \<Rightarrow> (st1\<lparr>nd_elect := s'\<rparr>, True)
           | (s', Some True) \<Rightarrow> Run_loop el es (on_lead demote (st1\<lparr>nd_elect := s'\<rparr>))))"

text \<open>A failed resignation is only logged.\<close>

definition resign :: "('s, 'c, 'h, 'r) Election \<Rightarrow> 'r \<Rightarrow> 's node \<Rightarrow> 's node" where
  "resign el re st = (let wasLeading = Leading (nd_lead st); st1 = on_lead demote st in
     if \<not> wasLeading then st1
     else st1\<lparr>nd_elect := fst (el_Resign el re (nd_elect st1))\<rparr>)"

definition close_stopped :: "'s node \<Rightarrow> 's node" where
  "close_stopped st = st\<lparr>nd_lead := (nd_lead st)\<lparr>ld_stopped := True\<rparr>\<rparr>"

definition Run :: "('s, 'c, 'h, 'r) Election \<Rightarrow> (bool \<times> 'c \<times> 'h) list \<Rightarrow> 'r \<Rightarrow> 's node \<Rightarrow> 's node" where
  "Run el es re st = (case Run_loop el es st of
      (st', False) \<Rightarrow> st'
    | (st', True) \<Rightarrow> close_stopped (resign el re st'))"

section \<open>The election in PostgreSQL\<close>

record postgresElection =
  pe_q :: Queue
  pe_nodeID :: string
  pe_lease :: dur
  pe_renewEvery :: dur

text \<open>\<open>uuid\<close> is the text of the fresh identifier.\<close>

definition newNodeID :: "string \<Rightarrow> string" where
  "newNodeID uuid = take 8 uuid"

definition NewPostgresElection :: "string \<Rightarrow> Queue \<Rightarrow> dur \<Rightarrow> postgresElection" where
  "NewPostgresElection uuid q lease =
     \<lparr>pe_q = q, pe_nodeID = newNodeID uuid, pe_lease = lease, pe_renewEvery = go_div lease 3\<rparr>"

text \<open>
  A round of \<open>Campaign\<close>: what its call meets, whether the context has ended when the call comes
  back, and whether the \<open>select\<close> takes the context's \<open>Done\<close> rather than the timer. A round of
  \<open>Hold\<close> is the end of the context or a tick.
\<close>

record tick = db_env +
  tk_ctx_err :: bool

record poll = tick +
  pl_done :: bool

datatype hold_event = HoldDone | HoldTick tick

definition ErrCanceled :: goerror where
  "ErrCanceled = ErrText ''context canceled''"

fun postgres_Campaign :: "postgresElection \<Rightarrow> poll list \<Rightarrow> db \<Rightarrow> db \<times> (goerror + int) option" where
  "postgres_Campaign pe [] d = (d, None)"
| "postgres_Campaign pe (p # ps) d =
     (case Queue_Campaign (pe_q pe) (env_call p) (pe_nodeID pe) (pe_lease pe)
             (meet (q_store (pe_q pe)) p d) of
        (d', Inr (tm, True)) \<Rightarrow> (d', Some (Inr tm))
      | (d', _) \<Rightarrow>
          if tk_ctx_err p then (d', Some (Inl ErrCanceled))
          else if pl_done p then (d', Some (Inl ErrCanceled))
          else postgres_Campaign pe ps d')"

fun postgres_Hold :: "postgresElection \<Rightarrow> hold_event list \<Rightarrow> db \<Rightarrow> db \<times> bool option" where
  "postgres_Hold pe [] d = (d, None)"
| "postgres_Hold pe (HoldDone # hs) d = (d, Some False)"
| "postgres_Hold pe (HoldTick p # hs) d =
     (case Queue_RenewLeadership (pe_q pe) (env_call p) (pe_nodeID pe) (pe_lease pe)
             (meet (q_store (pe_q pe)) p d) of
        (d', res) \<Rightarrow>
          if tk_ctx_err p then (d', Some False)
          else (case res of
              Inl err \<Rightarrow> postgres_Hold pe hs d'
            | Inr (tm, leader) \<Rightarrow> if \<not> leader then (d', Some True) else postgres_Hold pe hs d'))"

definition postgres_Resign :: "postgresElection \<Rightarrow> db_env \<Rightarrow> db \<Rightarrow> db \<times> goerror option" where
  "postgres_Resign pe x d =
     Queue_ResignLeadership (pe_q pe) (env_call x) (pe_nodeID pe) (meet (q_store (pe_q pe)) x d)"

definition postgres_election ::
  "postgresElection \<Rightarrow> (db, poll list, hold_event list, db_env) Election" where
  "postgres_election pe = \<lparr>el_Campaign = postgres_Campaign pe, el_Hold = postgres_Hold pe,
     el_Resign = postgres_Resign pe\<rparr>"

end
