(* ===== verification/Election_Guarantees.thy ===== *)
theory Election_Guarantees
  imports Elections
begin

text \<open>
  What the leadership loop owes to any election mechanism, proved once against the interface,
  and the PostgreSQL election as an instance: terms increase from reign to reign, the context
  of a reign lives exactly as long as the reign, a free leadership is won at the next poll, a
  leader that renews in time stays leader, and a clean shutdown hands over.
\<close>

section \<open>The contract of an election\<close>

text \<open>
  \<open>Campaign\<close> returns a term above every term handed out before; \<open>last_term\<close> bounds the terms the
  mechanism has handed out to anybody and never falls, and \<open>sound\<close> says that the mechanism
  behaves as documented, which every operation keeps.
\<close>

locale election =
  fixes el :: "('s, 'c, 'h, 'r) Election"
    and sound :: "'s \<Rightarrow> bool"
    and last_term :: "'s \<Rightarrow> int"
  assumes campaign_sound: "sound s \<Longrightarrow> sound (fst (el_Campaign el ce s))
      \<and> last_term s \<le> last_term (fst (el_Campaign el ce s))"
    and campaign_term: "sound s \<Longrightarrow> el_Campaign el ce s = (s', Some (Inr tm)) \<Longrightarrow>
      last_term s < tm \<and> tm \<le> last_term s'"
    and hold_sound: "sound s \<Longrightarrow> sound (fst (el_Hold el he s))
      \<and> last_term s \<le> last_term (fst (el_Hold el he s))"
    and resign_sound: "sound s \<Longrightarrow> sound (fst (el_Resign el re s))
      \<and> last_term s \<le> last_term (fst (el_Resign el re s))"

text \<open>
  A node between two steps of its loop: its reign and context agree, the announced terms
  strictly increase from \<open>lo\<close> up to the last term of the mechanism, and a reaper either belongs
  to the reign in progress or its context is cancelled.
\<close>

definition node_ok :: "('s \<Rightarrow> int) \<Rightarrow> int \<Rightarrow> 's node \<Rightarrow> bool" where
  "node_ok last_term lo st \<longleftrightarrow>
     reign_ok (nd_lead st, nd_ctxs st)
   \<and> sorted_wrt (>) (nd_terms st @ [lo])
   \<and> list_all (\<lambda>t. t \<le> last_term (nd_elect st)) (nd_terms st @ [lo])
   \<and> (Leading (nd_lead st) \<longrightarrow> nd_terms st \<noteq> [] \<and> Term (nd_lead st) = hd (nd_terms st))
   \<and> list_all (\<lambda>c. c < ctx_made (nd_ctxs st) \<and>
        (c = LeadCtx (nd_lead st) \<and> Leading (nd_lead st) \<or> ctx_done (nd_ctxs st) c)) (nd_reapers st)"

lemma nd_elect_simps [simp]:
  "nd_elect (on_lead f st) = nd_elect st" "nd_elect (start_reign tm st) = nd_elect st"
  by (simp_all add: on_lead_def start_reign_def Let_def split: prod.split)

lemma node_ok_elect:
  "node_ok last_term lo st \<Longrightarrow> last_term (nd_elect st) \<le> last_term s \<Longrightarrow>
     node_ok last_term lo (st\<lparr>nd_elect := s\<rparr>)"
  by (auto simp: node_ok_def list_all_iff)

lemma node_ok_start:
  assumes "node_ok last_term lo st" and "\<not> Leading (nd_lead st)"
    and "\<forall>t \<in> set (nd_terms st @ [lo]). t < tm" and "tm \<le> last_term (nd_elect st)"
  shows "node_ok last_term lo (start_reign tm st)"
proof -
  obtain l h where lh: "becomeLead tm (nd_lead st, nd_ctxs st) = (l, h)" by fastforce
  have reign: "reign_ok (l, h)" "Leading l" "Term l = tm"
    using becomeLead_ok [of "nd_lead st" "nd_ctxs st" tm] assms(1,2) lh by (auto simp: node_ok_def)
  have ctx: "LeadCtx l = ctx_made (nd_ctxs st)" "ctx_made h = Suc (ctx_made (nd_ctxs st))"
      "ctx_done h = ctx_done (nd_ctxs st)"
    using lh by (auto simp: leadership_defs fun_eq_iff)
  have st: "start_reign tm st = st\<lparr>nd_lead := l, nd_ctxs := h, nd_terms := tm # nd_terms st,
      nd_reapers := ctx_made (nd_ctxs st) # nd_reapers st\<rparr>"
    using lh ctx(1) by (simp add: start_reign_def on_lead_def Let_def)
  show ?thesis
    using assms reign unfolding st node_ok_def
    by (auto simp: list_all_iff ctx)
qed

lemma node_ok_demote:
  assumes "node_ok last_term lo st"
  shows "node_ok last_term lo (on_lead demote st) \<and> \<not> Leading (nd_lead (on_lead demote st))"
proof -
  obtain l h where lh: "demote (nd_lead st, nd_ctxs st) = (l, h)" by fastforce
  have reign: "reign_ok (l, h)" "\<not> Leading l" "ctx_done h (LeadCtx (nd_lead st))"
    using demote_ok [of "nd_lead st" "nd_ctxs st"] assms lh by (auto simp: node_ok_def)
  have "ctx_made h = ctx_made (nd_ctxs st)" "ctx_done (nd_ctxs st) c \<Longrightarrow> ctx_done h c" for c
    using lh by (auto simp: leadership_defs split: option.splits)
  with assms reign show ?thesis
    by (auto simp: node_ok_def on_lead_def lh list_all_iff)
qed

lemma node_okD:
  assumes "node_ok last_term lo st"
  shows "Leading (nd_lead st) = (\<not> ctx_done (nd_ctxs st) (LeadCtx (nd_lead st)))"
    and "sorted_wrt (>) (nd_terms st @ [lo])"
    and "Leading (nd_lead st) \<longrightarrow> nd_terms st \<noteq> [] \<and> Term (nd_lead st) = hd (nd_terms st)"
    and "\<forall>c \<in> set (nd_reapers st).
      c = LeadCtx (nd_lead st) \<and> Leading (nd_lead st) \<or> ctx_done (nd_ctxs st) c"
proof -
  show "Leading (nd_lead st) = (\<not> ctx_done (nd_ctxs st) (LeadCtx (nd_lead st)))"
    using assms unfolding node_ok_def reign_ok_def by blast
qed (use assms in \<open>unfold node_ok_def list_all_iff, blast+\<close>)

lemma node_ok_close [simp]:
  "node_ok last_term lo (close_stopped st) = node_ok last_term lo st"
  "Leading (nd_lead (close_stopped st)) = Leading (nd_lead st)"
  "ld_stopped (nd_lead (close_stopped st))"
  by (simp_all add: node_ok_def close_stopped_def reign_ok_def Leading_def LeadCtx_def Term_def)

context election
begin

lemma Run_loop_ok:
  assumes "node_ok last_term lo st" and "sound (nd_elect st)" and "\<not> Leading (nd_lead st)"
  shows "node_ok last_term lo (fst (Run_loop el es st)) \<and> sound (nd_elect (fst (Run_loop el es st)))"
  using assms
proof (induction es arbitrary: st)
  case (Cons x es)
  obtain stop ce he where x: "x = (stop, ce, he)" by (cases x)
  obtain s res where camp: "el_Campaign el ce (nd_elect st) = (s, res)" by fastforce
  have s: "sound s" "last_term (nd_elect st) \<le> last_term s"
    using campaign_sound [OF Cons.prems(2), of ce] camp by simp_all
  have kept: "node_ok last_term lo (st\<lparr>nd_elect := s\<rparr>)"
    using Cons.prems(1) s(2) by (rule node_ok_elect)
  show ?case
  proof (cases "\<not> stop \<and> (\<exists>tm. res = Some (Inr tm))")
    case False
    with x camp kept s(1) Cons.prems(1,2) show ?thesis by (auto split: option.split sum.split)
  next
    case True
    then obtain tm where res: "\<not> stop" "res = Some (Inr tm)" by blast
    define st1 where "st1 = start_reign tm (st\<lparr>nd_elect := s\<rparr>)"
    have el1: "nd_elect st1 = s" by (simp add: st1_def)
    have ok1: "node_ok last_term lo st1"
      unfolding st1_def
      using campaign_term [OF Cons.prems(2), of ce s tm] camp res Cons.prems kept
      by (intro node_ok_start) (fastforce simp: node_ok_def list_all_iff)+
    obtain s' b where hold: "el_Hold el he s = (s', b)" by fastforce
    have s': "sound s'" "last_term s \<le> last_term s'"
      using hold_sound [OF s(1), of he] hold by simp_all
    have ok2: "node_ok last_term lo (st1\<lparr>nd_elect := s'\<rparr>)"
      using ok1 s'(2) by (intro node_ok_elect) (simp_all add: el1)
    show ?thesis
      using Cons.IH [of "on_lead demote (st1\<lparr>nd_elect := s'\<rparr>)"] node_ok_demote [OF ok2] ok2 s'(1)
        x camp res hold el1
      by (auto simp: st1_def [symmetric] Let_def split: option.split bool.split)
  qed
qed simp

lemma resign_ok:
  assumes "node_ok last_term lo st" and "sound (nd_elect st)"
  shows "node_ok last_term lo (resign el re st) \<and> \<not> Leading (nd_lead (resign el re st))"
  using node_ok_demote [OF assms(1)] resign_sound [OF assms(2), of re]
  by (auto simp: resign_def Let_def intro: node_ok_elect)

lemma Run_ok:
  assumes "node_ok last_term lo st" and "sound (nd_elect st)" and "\<not> Leading (nd_lead st)"
  shows "node_ok last_term lo (Run el es re st)"
    and "snd (Run_loop el es st) \<Longrightarrow>
      \<not> Leading (nd_lead (Run el es re st)) \<and> ld_stopped (nd_lead (Run el es re st))"
proof -
  obtain st' b where loop: "Run_loop el es st = (st', b)" by fastforce
  with Run_loop_ok [OF assms, of es] have ok: "node_ok last_term lo st'" "sound (nd_elect st')"
    by simp_all
  with resign_ok [OF ok, of re] loop show "node_ok last_term lo (Run el es re st)"
    and "snd (Run_loop el es st) \<Longrightarrow>
      \<not> Leading (nd_lead (Run el es re st)) \<and> ld_stopped (nd_lead (Run el es re st))"
    by (auto simp: Run_def split: bool.split)
qed

end

section \<open>The PostgreSQL election keeps the contract\<close>

abbreviation row_last :: "db \<Rightarrow> int" where
  "row_last d \<equiv> lr_term (leadership d)"

lemma run_ops_term_mono:
  assumes "engine_ok e"
  shows "row_last d \<le> row_last (run_ops e xs d)"
proof (induction xs arbitrary: d)
  case (Cons x xs)
  obtain c op where "x = (c, op)" by (cases x)
  with Cons.IH [of "apply_op e c op d"] apply_op_term_mono [OF assms, of d c op] show ?case
    by simp
qed simp

lemma meet_term_mono: "engine_ok e \<Longrightarrow> row_last d \<le> row_last (meet e x d)"
  by (simp add: meet_def run_ops_term_mono)

lemma Campaign_term_mono: "engine_ok e \<Longrightarrow> row_last d \<le> row_last (fst (Campaign e c n lease d))"
  using apply_op_term_mono [of e d c "OpCampaign n lease"] by simp

lemma Renew_term_mono: "engine_ok e \<Longrightarrow> row_last d \<le> row_last (fst (RenewLeadership e c n lease d))"
  using apply_op_term_mono [of e d c "OpRenew n lease"] by simp

lemma Resign_term_mono: "engine_ok e \<Longrightarrow> row_last d \<le> row_last (fst (ResignLeadership c n d))"
  using apply_op_term_mono [of e d c "OpResign n"] by simp

lemma Campaign_won_term:
  assumes "engine_ok e" and "Campaign e c n lease d = (d', Inr (tm, True))"
  shows "tm = row_last d + 1 \<and> row_last d' = tm"
  using won_term [OF assms(1), of c "OpCampaign n lease" d n tm] assms(2) by simp

lemma postgres_Campaign_step:
  assumes "Queue_Campaign (pe_q pe) (env_call p) (pe_nodeID pe) (pe_lease pe)
             (meet (q_store (pe_q pe)) p d) = (d', res)"
  shows "postgres_Campaign pe (p # ps) d =
     (if \<exists>tm. res = Inr (tm, True) then (d', Some (Inr (fst (projr res))))
      else if tk_ctx_err p \<or> pl_done p then (d', Some (Inl ErrCanceled))
      else postgres_Campaign pe ps d')"
  using assms by (auto split: sum.split prod.split bool.split)

lemma postgres_Campaign_terms:
  assumes "engine_ok (q_store (pe_q pe))"
  shows "row_last d \<le> row_last (fst (postgres_Campaign pe ps d))
    \<and> (\<forall>tm. snd (postgres_Campaign pe ps d) = Some (Inr tm) \<longrightarrow>
         row_last d < tm \<and> tm \<le> row_last (fst (postgres_Campaign pe ps d)))"
proof (induction ps arbitrary: d)
  case (Cons p ps)
  let ?e = "q_store (pe_q pe)"
  obtain d' res where call: "Campaign ?e (env_call p) (pe_nodeID pe) (pe_lease pe) (meet ?e p d) = (d', res)"
    by fastforce
  have mono: "row_last d \<le> row_last (meet ?e p d)" "row_last (meet ?e p d) \<le> row_last d'"
    using meet_term_mono [OF assms, of d p] call
      Campaign_term_mono [OF assms, of "meet ?e p d" "env_call p" "pe_nodeID pe" "pe_lease pe"]
    by simp_all
  have won: "tm = row_last (meet ?e p d) + 1 \<and> row_last d' = tm" if "res = Inr (tm, True)" for tm
    using Campaign_won_term [OF assms] call that by simp
  have step: "postgres_Campaign pe (p # ps) d =
     (if \<exists>tm. res = Inr (tm, True) then (d', Some (Inr (fst (projr res))))
      else if tk_ctx_err p \<or> pl_done p then (d', Some (Inl ErrCanceled))
      else postgres_Campaign pe ps d')"
    by (rule postgres_Campaign_step) (simp add: Queue_Campaign_def call)
  show ?case
  proof (cases "\<exists>tm. res = Inr (tm, True)")
    case True
    then obtain tm where res: "res = Inr (tm, True)" ..
    with won mono show ?thesis unfolding step by simp
  next
    case False
    from mono have "row_last d \<le> row_last d'" by linarith
    with False Cons.IH [of d'] show ?thesis unfolding step by (auto intro: le_less_trans)
  qed
qed simp

lemma postgres_Hold_mono:
  assumes "engine_ok (q_store (pe_q pe))"
  shows "row_last d \<le> row_last (fst (postgres_Hold pe hs d))"
proof (induction hs arbitrary: d)
  case (Cons h hs)
  show ?case
  proof (cases h)
    case (HoldTick p)
    let ?e = "q_store (pe_q pe)"
    obtain d' res where
      call: "RenewLeadership ?e (env_call p) (pe_nodeID pe) (pe_lease pe) (meet ?e p d) = (d', res)"
      by fastforce
    have "row_last d \<le> row_last (meet ?e p d)" "row_last (meet ?e p d) \<le> row_last d'"
      using meet_term_mono [OF assms, of d p] call
        Renew_term_mono [OF assms, of "meet ?e p d" "env_call p" "pe_nodeID pe" "pe_lease pe"]
      by simp_all
    with Cons.IH [of d'] HoldTick call show ?thesis
      by (auto simp: Queue_RenewLeadership_def split: sum.split)
  qed simp
qed simp

lemma postgres_Resign_mono:
  assumes "engine_ok (q_store (pe_q pe))"
  shows "row_last d \<le> row_last (fst (postgres_Resign pe x d))"
  using meet_term_mono [OF assms, of d x] Resign_term_mono [OF assms]
  by (auto simp: postgres_Resign_def Queue_ResignLeadership_def intro: order_trans)

interpretation pg_elect: election "postgres_election pe" "\<lambda>_. engine_ok (q_store (pe_q pe))" row_last
  for pe
proof (unfold_locales, unfold postgres_election_def Election.simps)
  fix s ce s' tm assume "engine_ok (q_store (pe_q pe))"
    and "postgres_Campaign pe ce s = (s', Some (Inr tm))"
  with postgres_Campaign_terms [of pe s ce] show "row_last s < tm \<and> tm \<le> row_last s'" by simp
qed (use postgres_Campaign_terms postgres_Hold_mono postgres_Resign_mono in blast)+

section \<open>The reigns of a node\<close>

definition new_node :: "'s \<Rightarrow> dur \<Rightarrow> 's node" where
  "new_node s reapEvery = (case newLeadership reapEvery \<lparr>ctx_made = 0, ctx_cancelled = []\<rparr> of
     (l, h) \<Rightarrow> \<lparr>nd_elect = s, nd_lead = l, nd_ctxs = h, nd_reapers = [], nd_terms = []\<rparr>)"

lemma new_node_ok:
  "node_ok last_term (last_term s) (new_node s n)" "\<not> Leading (nd_lead (new_node s n))"
  "nd_elect (new_node s n) = s"
  using newLeadership_ok [of "\<lparr>ctx_made = 0, ctx_cancelled = []\<rparr>" n]
  by (auto simp: new_node_def node_ok_def split: prod.split)

text \<open>
  C18: A node that runs its leadership loop over the PostgreSQL election, whatever the other
  nodes and the network do, leads exactly while the context it hands to streams and to the
  reaper is live; the terms of its reigns strictly increase and lie above the term the row
  had when it started; while it leads its term is that of its last win; every reaper of an
  earlier reign has been cancelled; and once the loop is over it does not lead and says so.
\<close>

theorem Run_reigns:
  assumes "engine_ok (q_store (pe_q pe))"
    and "st = Run (postgres_election pe) es re (new_node d reapEvery)"
  shows "Leading (nd_lead st) = (\<not> ctx_done (nd_ctxs st) (LeadCtx (nd_lead st)))
    \<and> sorted_wrt (>) (nd_terms st @ [lr_term (leadership d)])
    \<and> (Leading (nd_lead st) \<longrightarrow> nd_terms st \<noteq> [] \<and> Term (nd_lead st) = hd (nd_terms st))
    \<and> (\<forall>c \<in> set (nd_reapers st).
         c = LeadCtx (nd_lead st) \<and> Leading (nd_lead st) \<or> ctx_done (nd_ctxs st) c)
    \<and> (snd (Run_loop (postgres_election pe) es (new_node d reapEvery)) \<longrightarrow>
         \<not> Leading (nd_lead st) \<and> ld_stopped (nd_lead st))"
proof -
  have new: "node_ok row_last (row_last d) (new_node d reapEvery)"
      "engine_ok (q_store (pe_q pe))" "\<not> Leading (nd_lead (new_node d reapEvery))"
    by (rule new_node_ok(1), rule assms(1), rule new_node_ok(2))
  note run = pg_elect.Run_ok [OF new, of es re, folded assms(2)]
  from run(2) have "snd (Run_loop (postgres_election pe) es (new_node d reapEvery)) \<longrightarrow>
      \<not> Leading (nd_lead st) \<and> ld_stopped (nd_lead st)" by (rule impI)
  then show ?thesis by (intro conjI node_okD [OF run(1)])
qed

definition election1 :: postgresElection where
  "election1 = NewPostgresElection ''node-one-uuid'' queue1 (30 * second)"

definition poll_at :: "ts \<Rightarrow> poll" where
  "poll_at t = \<lparr>env_before = [], env_call = call_at t, tk_ctx_err = False, pl_done = False\<rparr>"

definition tick_at :: "ts \<Rightarrow> hold_event" where
  "tick_at t = HoldTick \<lparr>env_before = [], env_call = call_at t, tk_ctx_err = False\<rparr>"

lemma election1_ok [simp]: "engine_ok (q_store (pe_q election1))"
  by (simp add: election1_def NewPostgresElection_def queue1_def)

definition sample_reigns :: "(bool \<times> poll list \<times> hold_event list) list" where
  "sample_reigns = [(False, [poll_at 20000000, poll_at 40000000], [tick_at 50000000, tick_at 90000000]),
     (False, [poll_at 99000000], [])]"

definition env_at :: "ts \<Rightarrow> db_env" where
  "env_at t = \<lparr>env_before = [], env_call = call_at t\<rparr>"

theorem Run_reigns_witness:
  "sorted_wrt (>) (nd_terms (Run (postgres_election election1) sample_reigns (env_at 100000000)
     (new_node db1 second)) @ [1])"
proof -
  have "lr_term (leadership db1) = 1" by (simp add: db1_def)
  with Run_reigns [OF election1_ok refl, of sample_reigns "env_at 100000000" db1 second]
  show ?thesis by (elim conjE) (simp only:)
qed

section \<open>Campaigning\<close>

lemma run_ops_leadership:
  "list_all (\<lambda>x. \<not> leader_op (snd x)) xs \<Longrightarrow> leadership (run_ops e xs d) = leadership d"
proof (induction xs arbitrary: d)
  case (Cons x xs)
  obtain c op where "x = (c, op)" by (cases x)
  with Cons apply_op_leadership [of op e c d] show ?case by simp
qed simp

lemma Campaign_lost:
  assumes "Campaign e c n lease d = (d', res)" and "\<nexists>tm. res = Inr (tm, True)"
    and "\<nexists>m. flt c = Fault True m"
  shows "d' = d"
  using assms
  by (auto simp: Campaign_def scan_term_def exec_def stmt_state_def stmt_result_def sql_campaign_def
      Let_def split: fault.splits sum.splits option.splits if_splits)

lemma Campaign_won_leader:
  assumes "engine_ok e" and "Campaign e c n lease d = (d', Inr (tm, True))"
  shows "lr_leader_id (leadership d') = n"
  using won_term [OF assms(1), of c "OpCampaign n lease" d n tm] assms(2) by simp

text \<open>
  C22: A free leadership is taken: a candidate whose polls are not interrupted by a shutdown and
  lose no committed win to a broken connection returns from \<open>Campaign\<close> as leader, with the next
  term, at the latest at its first answered poll after the current lease has lapsed, if no
  other node campaigns, renews or resigns meanwhile. Failed polls before it cost nothing.
\<close>

theorem candidate_wins:
  assumes "engine_ok (q_store (pe_q pe))"
    and "\<forall>x \<in> set (ps @ [p]). list_all (\<lambda>y. \<not> leader_op (snd y)) (env_before x)"
    and "\<forall>x \<in> set ps. \<not> tk_ctx_err x \<and> \<not> pl_done x \<and> (\<nexists>m. flt (env_call x) = Fault True m)"
    and "flt (env_call p) = NoFault" and "lr_lease_expires_at (leadership d) < now (env_call p)"
    and "fits64 (lr_term (leadership d) + 1)" and "fits64 (make_interval (pe_lease pe))"
    and "ts_in_range (now (env_call p) + make_interval (pe_lease pe))"
  shows "\<exists>d'. postgres_Campaign pe (ps @ p # qs) d = (d', Some (Inr (lr_term (leadership d) + 1)))
    \<and> lr_leader_id (leadership d') = pe_nodeID pe"
  using assms(2,3,5,6)
proof (induction ps arbitrary: d)
  case Nil
  let ?e = "q_store (pe_q pe)"
  have same: "leadership (meet ?e p d) = leadership d"
    using Nil by (simp add: meet_def run_ops_leadership)
  have "Campaign ?e (env_call p) (pe_nodeID pe) (pe_lease pe) (meet ?e p d) =
      ((meet ?e p d)\<lparr>leadership := \<lparr>lr_leader_id = pe_nodeID pe,
          lr_term = lr_term (leadership d) + 1,
          lr_lease_expires_at = now (env_call p) + make_interval (pe_lease pe)\<rparr>\<rparr>,
       Inr (lr_term (leadership d) + 1, True))"
    using campaign_answer [OF assms(1,4), of "meet ?e p d" "pe_lease pe" "pe_nodeID pe"]
      Nil(3,4) assms(7,8) by (simp add: same)
  then show ?case by (simp add: Queue_Campaign_def)
next
  case (Cons x ps)
  let ?e = "q_store (pe_q pe)"
  have same: "leadership (meet ?e x d) = leadership d"
    using Cons.prems by (simp add: meet_def run_ops_leadership)
  obtain d' res where
    call: "Campaign ?e (env_call x) (pe_nodeID pe) (pe_lease pe) (meet ?e x d) = (d', res)"
    by fastforce
  note step = postgres_Campaign_step [of pe x d d' res, unfolded Queue_Campaign_def, OF call]
  show ?case
  proof (cases "\<exists>tm. res = Inr (tm, True)")
    case True
    then obtain tm where res: "res = Inr (tm, True)" ..
    with call have won: "Campaign ?e (env_call x) (pe_nodeID pe) (pe_lease pe) (meet ?e x d) =
        (d', Inr (tm, True))" by simp
    show ?thesis
      unfolding append_Cons step
      using Campaign_won_term [OF assms(1) won] Campaign_won_leader [OF assms(1) won] same res by simp
  next
    case False
    with Campaign_lost [OF call] Cons.prems(2) have "d' = meet ?e x d" by simp
    with Cons.IH [of d'] Cons.prems same False show ?thesis
      unfolding append_Cons step by simp
  qed
qed

theorem candidate_wins_witness:
  "\<exists>d'. postgres_Campaign election1 ([poll_at 20000000] @ poll_at 40000000 # []) db1 = (d', Some (Inr 2))"
proof -
  have "\<exists>d'. postgres_Campaign election1 ([poll_at 20000000] @ poll_at 40000000 # []) db1
      = (d', Some (Inr (lr_term (leadership db1) + 1)))
    \<and> lr_leader_id (leadership d') = pe_nodeID election1"
    by (rule candidate_wins [OF election1_ok])
       (simp_all add: poll_at_def db1_def election1_def NewPostgresElection_def fits64_def
          ts_in_range_def second_def make_interval_def)
  then show ?thesis by (simp add: db1_def del: postgres_Campaign.simps) blast
qed

section \<open>Holding\<close>

lemma Renew_refused:
  assumes "RenewLeadership e c n lease d = (d', Inr (tm, False))"
  shows "d' = d \<and> \<not> (lr_leader_id (leadership d) = n \<and> now c \<le> lr_lease_expires_at (leadership d))"
  using assms
  by (auto simp: RenewLeadership_def scan_term_def exec_def stmt_state_def stmt_result_def
      sql_renew_def Let_def split: fault.splits sum.splits option.splits if_splits)

text \<open>
  A leader steps down only on a definite word: \<open>Hold\<close> reports the loss of leadership only
  after an answered renewal found the row naming another node or the lease lapsed, never
  because a renewal failed or the context ended.
\<close>

lemma Hold_true_deposed:
  assumes "postgres_Hold pe hs d = (d', Some True)"
  shows "\<exists>p. HoldTick p \<in> set hs \<and> \<not> tk_ctx_err p
    \<and> \<not> (lr_leader_id (leadership d') = pe_nodeID pe
         \<and> now (env_call p) \<le> lr_lease_expires_at (leadership d'))"
  using assms
proof (induction hs arbitrary: d)
  case (Cons h hs)
  show ?case
  proof (cases h)
    case (HoldTick p)
    let ?e = "q_store (pe_q pe)"
    obtain d1 res where
      call: "RenewLeadership ?e (env_call p) (pe_nodeID pe) (pe_lease pe) (meet ?e p d) = (d1, res)"
      by fastforce
    have live: "\<not> tk_ctx_err p" using Cons.prems HoldTick call
      by (auto simp: Queue_RenewLeadership_def)
    show ?thesis
    proof (cases "\<exists>tm. res = Inr (tm, False)")
      case True
      then obtain tm where res: "res = Inr (tm, False)" ..
      with Cons.prems HoldTick call live have "d' = d1" by (simp add: Queue_RenewLeadership_def)
      with Renew_refused [OF call [unfolded res]] HoldTick live show ?thesis by auto
    next
      case False
      with Cons.prems HoldTick call live have "postgres_Hold pe hs d1 = (d', Some True)"
        by (auto simp: Queue_RenewLeadership_def split: sum.splits prod.splits if_splits)
      from Cons.IH [OF this] show ?thesis by auto
    qed
  qed (use Cons.prems in simp)
qed simp

text \<open>
  Ticks that come in time: each finds the expiry \<open>x\<close> the last applied renewal left, other nodes
  campaign only before it and do not speak for \<open>n\<close>, and a renewal that fails without effect is
  made good by the next one before \<open>x\<close>.
\<close>

fun harmless :: "ts \<Rightarrow> string \<Rightarrow> db_call \<times> store_op \<Rightarrow> bool" where
  "harmless x n (c, OpCampaign m l) \<longleftrightarrow> now c \<le> x"
| "harmless x n (c, OpRenew m l) \<longleftrightarrow> m \<noteq> n"
| "harmless x n (c, OpResign m) \<longleftrightarrow> m \<noteq> n"
| "harmless x n _ \<longleftrightarrow> True"

fun applied :: "fault \<Rightarrow> bool" where
  "applied (Fault b m) = b"
| "applied _ = True"

fun timely :: "dur \<Rightarrow> string \<Rightarrow> ts \<Rightarrow> hold_event list \<Rightarrow> bool" where
  "timely lease n x [] \<longleftrightarrow> True"
| "timely lease n x (HoldDone # hs) \<longleftrightarrow> True"
| "timely lease n x (HoldTick p # hs) \<longleftrightarrow>
     list_all (harmless x n) (env_before p) \<and> now (env_call p) \<le> x
   \<and> ts_in_range (now (env_call p) + make_interval lease)
   \<and> timely lease n (if applied (flt (env_call p)) then now (env_call p) + make_interval lease else x) hs"

lemma run_ops_harmless:
  assumes "engine_ok e"
    and "list_all (harmless (lr_lease_expires_at (leadership d)) (lr_leader_id (leadership d))) xs"
  shows "leadership (run_ops e xs d) = leadership d"
  using assms(2)
proof (induction xs arbitrary: d)
  case (Cons y xs)
  obtain c op where y: "y = (c, op)" by (cases y)
  have "leadership (apply_op e c op d) = leadership d"
    by (rule apply_op_leadership_cases [OF assms(1), of c op d]) (use Cons.prems y in simp_all)
  with Cons y show ?case by simp
qed simp

lemma Renew_in_time:
  assumes "engine_ok e" and "lr_leader_id (leadership d) = n"
    and "now c \<le> lr_lease_expires_at (leadership d)"
    and "ts_in_range (now c + make_interval lease)" and "fits64 (make_interval lease)"
  shows "leadership (fst (RenewLeadership e c n lease d)) = (if applied (flt c)
      then (leadership d)\<lparr>lr_lease_expires_at := now c + make_interval lease\<rparr> else leadership d)"
    and "snd (RenewLeadership e c n lease d) \<noteq> Inr (tm, False)"
  using assms
  by (auto simp: RenewLeadership_def scan_term_def exec_def stmt_state_def stmt_result_def
      sql_renew_def after_interval_total Let_def split: fault.split)

text \<open>
  C21: A leader that renews in time is never deposed: as long as every tick comes before the
  expiry the last applied renewal left, \<open>Hold\<close> does not report a loss, and the row keeps
  naming this node and its term, whatever campaigns other nodes make and however many
  renewals fail in between.
\<close>

theorem Hold_keeps:
  assumes "engine_ok (q_store (pe_q pe))" and "fits64 (make_interval (pe_lease pe))"
    and "lr_leader_id (leadership d) = pe_nodeID pe"
    and "timely (pe_lease pe) (pe_nodeID pe) (lr_lease_expires_at (leadership d)) hs"
  shows "snd (postgres_Hold pe hs d) \<noteq> Some True
    \<and> lr_leader_id (leadership (fst (postgres_Hold pe hs d))) = pe_nodeID pe
    \<and> lr_term (leadership (fst (postgres_Hold pe hs d))) = lr_term (leadership d)"
  using assms(3,4)
proof (induction hs arbitrary: d)
  case (Cons h hs)
  show ?case
  proof (cases h)
    case (HoldTick p)
    let ?e = "q_store (pe_q pe)"
    have same: "leadership (meet ?e p d) = leadership d"
      using run_ops_harmless [OF assms(1), of d "env_before p"] Cons.prems HoldTick
      by (simp add: meet_def)
    obtain d' res where
      call: "RenewLeadership ?e (env_call p) (pe_nodeID pe) (pe_lease pe) (meet ?e p d) = (d', res)"
      by fastforce
    have renewed: "leadership d' = (if applied (flt (env_call p))
        then (leadership d)\<lparr>lr_lease_expires_at := now (env_call p) + make_interval (pe_lease pe)\<rparr>
        else leadership d)" "\<And>tm. res \<noteq> Inr (tm, False)"
      using Renew_in_time [OF assms(1), of "meet ?e p d" "pe_nodeID pe" "env_call p" "pe_lease pe"]
        Cons.prems HoldTick call assms(2) by (simp_all add: same)
    have "lr_leader_id (leadership d') = pe_nodeID pe" "lr_term (leadership d') = lr_term (leadership d)"
        "timely (pe_lease pe) (pe_nodeID pe) (lr_lease_expires_at (leadership d')) hs"
      using renewed(1) Cons.prems HoldTick by (simp_all split: if_splits)
    with Cons.IH [of d'] renewed(2) HoldTick call show ?thesis
      by (auto simp: Queue_RenewLeadership_def split: sum.split)
  qed (use Cons.prems in simp)
qed (use assms(3) in simp)

definition db_led :: db where
  "db_led = db1\<lparr>leadership := \<lparr>lr_leader_id = ''node-one'', lr_term = 2, lr_lease_expires_at = 70000000\<rparr>\<rparr>"

lemma election1_simps [simp]:
  "pe_nodeID election1 = ''node-one''" "pe_lease election1 = 30 * second" "pe_q election1 = queue1"
  by (simp_all add: election1_def NewPostgresElection_def newNodeID_def)

theorem Hold_keeps_witness:
  "snd (postgres_Hold election1 [tick_at 50000000, tick_at 75000000] db_led) \<noteq> Some True"
proof -
  have "fits64 (make_interval (pe_lease election1))"
    by (simp add: fits64_def make_interval_def second_def)
  moreover have "lr_leader_id (leadership db_led) = pe_nodeID election1" by (simp add: db_led_def)
  moreover have "timely (pe_lease election1) (pe_nodeID election1)
      (lr_lease_expires_at (leadership db_led)) [tick_at 50000000, tick_at 75000000]"
    by (simp add: db_led_def tick_at_def ts_in_range_def make_interval_def second_def)
  ultimately show ?thesis using Hold_keeps [OF election1_ok] by blast
qed

section \<open>Shutting down\<close>

lemma Resign_answer:
  "flt c = NoFault \<Longrightarrow> ResignLeadership c n d = (if lr_leader_id (leadership d) = n
     then d\<lparr>leadership := (leadership d)\<lparr>lr_leader_id := '''', lr_lease_expires_at := 0\<rparr>\<rparr> else d, None)"
  by (simp add: ResignLeadership_def exec_ok stmt_state_def stmt_result_def sql_resign_def Let_def)

text \<open>
  C23: A clean shutdown hands over: when a node that leads and that the row names leaves its
  loop with the database answering, it stops leading and cancels its reign's context, and
  then the very next campaign of any node wins with the next term. A node that does not lead
  leaves the database alone.
\<close>

theorem shutdown_hands_over:
  assumes "engine_ok (q_store (pe_q pe))" and "reign_ok (nd_lead st, nd_ctxs st)"
    and "env_before x = []" and "flt (env_call x) = NoFault"
    and "lr_leader_id (leadership (nd_elect st)) = pe_nodeID pe"
    and "flt c = NoFault" and "0 < now c" and "fits64 (lr_term (leadership (nd_elect st)) + 1)"
    and "ts_in_range (now c + make_interval lease)" and "fits64 (make_interval lease)"
    and "st' = close_stopped (resign (postgres_election pe) x st)"
  shows "\<not> Leading (nd_lead st') \<and> ctx_done (nd_ctxs st') (LeadCtx (nd_lead st))
    \<and> (if Leading (nd_lead st)
       then snd (Campaign (q_store (pe_q pe)) c m lease (nd_elect st')) =
              Inr (lr_term (leadership (nd_elect st)) + 1, True)
       else nd_elect st' = nd_elect st)"
proof -
  let ?st = "resign (postgres_election pe) x st"
  have lead: "\<not> Leading (nd_lead ?st)" "ctx_done (nd_ctxs ?st) (LeadCtx (nd_lead st))"
    using demote_ok [OF assms(2)] demote_simps(3) [of "nd_lead st" "nd_ctxs st"]
    by (cases "demote (nd_lead st, nd_ctxs st)", simp add: resign_def Let_def on_lead_def)+
  have elect: "nd_elect ?st = (if Leading (nd_lead st) then (nd_elect st)\<lparr>leadership :=
      (leadership (nd_elect st))\<lparr>lr_leader_id := '''', lr_lease_expires_at := 0\<rparr>\<rparr> else nd_elect st)"
    using assms(3-5) by (simp add: resign_def Let_def postgres_election_def postgres_Resign_def
        meet_def Queue_ResignLeadership_def Resign_answer)
  let ?d = "(nd_elect st)\<lparr>leadership :=
      (leadership (nd_elect st))\<lparr>lr_leader_id := '''', lr_lease_expires_at := 0\<rparr>\<rparr>"
  have "snd (Campaign (q_store (pe_q pe)) c m lease ?d) =
      Inr (lr_term (leadership (nd_elect st)) + 1, True)"
    using campaign_answer [OF assms(1,6) _ assms(9,10), of ?d m] assms(7,8) by simp
  with lead elect show ?thesis
    by (simp add: assms(11) close_stopped_def Leading_def)
qed

definition node_led :: "db node" where
  "node_led = start_reign 2 (new_node db_led second)"

theorem shutdown_hands_over_witness:
  "Leading (nd_lead node_led)
   \<and> snd (Campaign seq_engine (call_at 60000001) ''n2'' second
       (nd_elect (close_stopped (resign (postgres_election election1) (env_at 60000000) node_led))))
     = Inr (3, True)"
proof -
  have lead: "Leading (nd_lead node_led)" "reign_ok (nd_lead node_led, nd_ctxs node_led)"
    by (auto simp: node_led_def start_reign_def new_node_def on_lead_def reign_ok_def
        leadership_defs Let_def less_Suc_eq)
  have elect: "nd_elect node_led = db_led" "lr_term (leadership db_led) = 2"
      "lr_leader_id (leadership db_led) = pe_nodeID election1" "q_store queue1 = seq_engine"
    by (simp_all add: node_led_def new_node_ok(3) db_led_def queue1_def)
  note over = shutdown_hands_over [OF election1_ok lead(2), of "env_at 60000000" "call_at 60000001"
      second "close_stopped (resign (postgres_election election1) (env_at 60000000) node_led)" "''n2''"]
  show ?thesis
    using lead(1) elect over
    by (simp add: env_at_def fits64_def ts_in_range_def second_def make_interval_def)
qed

end
