(* ===== verification/Dispatcher.thy ===== *)
theory Dispatcher
  imports Election_Guarantees
begin

text \<open>
  \<open>internal/server/dispatcher.go\<close>: the line of waiting workers, the timer, and the passes that
  claim a job for each waiting worker and put it on the worker's delivery channel. A pass
  holds the dispatcher's mutex from beginning to end, so a pass is one step; the database is
  shared, so any store operation may run before each of its calls.
\<close>

section \<open>Channels, waiters and the timer\<close>

text \<open>
  The delivery channels by number, each with the assignments sent and not yet received. They
  are made with capacity 1: a send to a full channel does not return.
\<close>

type_synonym chans = "nat \<Rightarrow> Assigned list"

definition chan_send :: "nat \<Rightarrow> Assigned \<Rightarrow> chans \<Rightarrow> chans option" where
  "chan_send c a ch = (if length (ch c) < 1 then Some (ch(c := ch c @ [a])) else None)"

record waiter =
  wt_workerID :: string
  wt_deliveries :: nat

text \<open>A timer is nil, has fired, or is pending for a duration.\<close>

datatype timer = NilTimer | Fired | Armed dur

record dispatcher =
  ds_waiters :: "waiter list"
  ds_timer :: timer

definition newDispatcher :: dispatcher where
  "newDispatcher = \<lparr>ds_waiters = [], ds_timer = NilTimer\<rparr>"

definition minArm :: dur where
  "minArm = 100 * millisecond"

text \<open>The dispatcher with what it works on.\<close>

record hub =
  hb_dis :: dispatcher
  hb_chans :: chans
  hb_db :: db

section \<open>A pass\<close>

text \<open>
  \<open>&pb.Assigned{Job: job, LeaseSeconds: int32(d.q.LeaseFor().Seconds())}\<close>: the conversion
  drops the fraction of the number of seconds.
\<close>

definition assignment :: "Queue \<Rightarrow> Job \<Rightarrow> Assigned" where
  "assignment q job = \<lparr>assigned_Job = Some job,
     assigned_LeaseSeconds = float_to_int32 (q_store q) (go_div (Queue_LeaseFor q) second)\<rparr>"

datatype pass_end = Passed | ClaimFailed goerror | SendBlocks nat Assigned

text \<open>
  The \<open>for\<close> loop of \<open>pushLocked\<close> for the waiters in line: how it ends, the number of the next
  database call, the line, the channels and the database.
\<close>

fun push_loop ::
  "Queue \<Rightarrow> int \<Rightarrow> (nat \<Rightarrow> db_env) \<Rightarrow> nat \<Rightarrow> waiter list \<Rightarrow> chans \<Rightarrow> db \<Rightarrow>
     pass_end \<times> nat \<times> waiter list \<times> chans \<times> db" where
  "push_loop q tm env k [] ch d = (Passed, k, [], ch, d)"
| "push_loop q tm env k (w # ws) ch d =
     (case Queue_Dequeue q (env_call (env k)) tm (wt_workerID w) (meet (q_store q) (env k) d) of
        (d', Inl err) \<Rightarrow> (ClaimFailed err, Suc k, w # ws, ch, d')
      | (d', Inr None) \<Rightarrow> (Passed, Suc k, w # ws, ch, d')
      | (d', Inr (Some job)) \<Rightarrow>
          (case chan_send (wt_deliveries w) (assignment q job) ch of
             None \<Rightarrow> (SendBlocks (wt_deliveries w) (assignment q job), Suc k, ws, ch, d')
           | Some ch' \<Rightarrow> push_loop q tm env (Suc k) ws ch' d'))"

definition armLocked :: "Queue \<Rightarrow> db_env \<Rightarrow> dispatcher \<Rightarrow> db \<Rightarrow> dispatcher \<times> db" where
  "armLocked q x dis d =
     (if ds_waiters dis = [] then (dis, d)
      else case Queue_NextVisible q (env_call x) (meet (q_store q) x d) of
        (d', Inl err) \<Rightarrow> (dis, d')
      | (d', Inr (wait, pending)) \<Rightarrow>
          if \<not> pending then (dis, d')
          else (dis\<lparr>ds_timer := Armed (if wait < minArm then minArm else wait)\<rparr>, d'))"

text \<open>
  What a pass meets: the leadership when it asks \<open>Leading()\<close> and when it asks \<open>Term()\<close>, and the
  environment of each database call.
\<close>

record push_env =
  pu_leading :: Leadership
  pu_term :: Leadership
  pu_db :: "nat \<Rightarrow> db_env"

text \<open>The second result is the send the pass hangs in, if it does.\<close>

definition pushLocked :: "Queue \<Rightarrow> push_env \<Rightarrow> hub \<Rightarrow> hub \<times> (nat \<times> Assigned) option" where
  "pushLocked q env hb =
     (if \<not> Leading (pu_leading env) then (hb, None)
      else case push_loop q (Term (pu_term env)) (pu_db env) 0 (ds_waiters (hb_dis hb))
                  (hb_chans hb) (hb_db hb) of
        (r, k, ws, ch, d) \<Rightarrow>
          let dis = (hb_dis hb)\<lparr>ds_waiters := ws\<rparr> in
          (case r of
             ClaimFailed err \<Rightarrow> (\<lparr>hb_dis = dis, hb_chans = ch, hb_db = d\<rparr>, None)
           | SendBlocks c a \<Rightarrow> (\<lparr>hb_dis = dis, hb_chans = ch, hb_db = d\<rparr>, Some (c, a))
           | Passed \<Rightarrow> (case armLocked q (pu_db env k) dis d of
                (dis', d') \<Rightarrow> (\<lparr>hb_dis = dis', hb_chans = ch, hb_db = d'\<rparr>, None))))"

section \<open>register, forget, Push\<close>

definition register :: "Queue \<Rightarrow> push_env \<Rightarrow> waiter \<Rightarrow> hub \<Rightarrow> hub \<times> (nat \<times> Assigned) option" where
  "register q env w hb =
     (if \<exists>x \<in> set (ds_waiters (hb_dis hb)). wt_workerID x = wt_workerID w then (hb, None)
      else pushLocked q env
        (hb\<lparr>hb_dis := (hb_dis hb)\<lparr>ds_waiters := ds_waiters (hb_dis hb) @ [w]\<rparr>\<rparr>))"

fun drop_waiter :: "string \<Rightarrow> waiter list \<Rightarrow> waiter list" where
  "drop_waiter workerID [] = []"
| "drop_waiter workerID (w # ws) =
     (if wt_workerID w = workerID then ws else w # drop_waiter workerID ws)"

definition forget :: "string \<Rightarrow> hub \<Rightarrow> hub" where
  "forget workerID hb = hb\<lparr>hb_dis := (hb_dis hb)\<lparr>ds_waiters :=
     drop_waiter workerID (ds_waiters (hb_dis hb))\<rparr>\<rparr>"

text \<open>\<open>ctx_err\<close> says whether the server is shutting down.\<close>

definition Push :: "Queue \<Rightarrow> bool \<Rightarrow> push_env \<Rightarrow> hub \<Rightarrow> hub \<times> (nat \<times> Assigned) option" where
  "Push q ctx_err env hb = (if ctx_err then (hb, None) else pushLocked q env hb)"

text \<open>The timer fires: \<open>time.AfterFunc(wait, d.Push)\<close>.\<close>

definition timer_fires :: "Queue \<Rightarrow> bool \<Rightarrow> push_env \<Rightarrow> hub \<Rightarrow> hub \<times> (nat \<times> Assigned) option" where
  "timer_fires q ctx_err env hb =
     Push q ctx_err env (hb\<lparr>hb_dis := (hb_dis hb)\<lparr>ds_timer := Fired\<rparr>\<rparr>)"

section \<open>The line stays in order\<close>

text \<open>
  Each worker and each channel is in line at most once, every worker in line has a name, and
  nothing is waiting on the channel of a worker in line.
\<close>

definition line_ok :: "waiter list \<Rightarrow> chans \<Rightarrow> bool" where
  "line_ok ws ch \<longleftrightarrow> distinct (map wt_workerID ws) \<and> distinct (map wt_deliveries ws)
     \<and> list_all (\<lambda>w. ch (wt_deliveries w) = [] \<and> wt_workerID w \<noteq> '''') ws"

abbreviation hub_ok :: "hub \<Rightarrow> bool" where
  "hub_ok hb \<equiv> line_ok (ds_waiters (hb_dis hb)) (hb_chans hb)"

lemma line_ok_Cons:
  "line_ok (w # ws) ch \<longleftrightarrow> line_ok ws ch \<and> wt_workerID w \<notin> wt_workerID ` set ws
     \<and> wt_deliveries w \<notin> wt_deliveries ` set ws \<and> ch (wt_deliveries w) = [] \<and> wt_workerID w \<noteq> ''''"
  by (auto simp: line_ok_def)

lemma line_ok_append:
  "line_ok (ws @ [w]) ch \<longleftrightarrow> line_ok ws ch \<and> wt_workerID w \<notin> wt_workerID ` set ws
     \<and> wt_deliveries w \<notin> wt_deliveries ` set ws \<and> ch (wt_deliveries w) = [] \<and> wt_workerID w \<noteq> ''''"
  by (auto simp: line_ok_def)

lemma line_ok_fill:
  "line_ok ws ch \<Longrightarrow> c \<notin> wt_deliveries ` set ws \<Longrightarrow> line_ok ws (ch(c := x))"
  by (auto simp: line_ok_def list_all_iff)

lemma drop_waiter_set: "set (drop_waiter i ws) \<subseteq> set ws"
  by (induction ws) auto

lemma line_ok_drop_waiter: "line_ok ws ch \<Longrightarrow> line_ok (drop_waiter i ws) ch"
  by (induction ws) (use drop_waiter_set in \<open>fastforce simp: line_ok_Cons\<close>)+

lemma drop_waiter_gone:
  "distinct (map wt_workerID ws) \<Longrightarrow> i \<notin> wt_workerID ` set (drop_waiter i ws)"
  by (induction ws) auto

end
