(* ===== verification/Dispatch_Guarantees.thy ===== *)
theory Dispatch_Guarantees
  imports Dispatcher
begin

text \<open>
  What the dispatcher guarantees: its sends never block while the line is in order, workers are
  served first come first served with jobs leased to them, and a pass that leaves somebody
  waiting leaves the timer armed for the next job that comes due. The last section shows the
  two ways a worker stream can put the line out of order.
\<close>

section \<open>A pass over an orderly line\<close>

lemma chan_send_empty: "ch c = [] \<Longrightarrow> chan_send c a ch = Some (ch(c := [a]))"
  by (simp add: chan_send_def)

lemma push_loop_ok:
  assumes "line_ok ws ch" and "push_loop q tm env k ws ch d = (r, k', ws', ch', d')"
  shows "line_ok ws' ch' \<and> (\<nexists>c a. r = SendBlocks c a) \<and> (\<exists>n \<le> length ws. ws' = drop n ws)
    \<and> (r = Passed \<and> ws' \<noteq> [] \<longrightarrow> k < k')"
  using assms
proof (induction ws arbitrary: k ch d)
  case (Cons w ws)
  obtain d1 res where dq: "Queue_Dequeue q (env_call (env k)) tm (wt_workerID w)
      (meet (q_store q) (env k) d) = (d1, res)" by fastforce
  show ?case
  proof (cases "\<exists>job. res = Inr (Some job)")
    case True
    then obtain job where res: "res = Inr (Some job)" ..
    let ?ch = "ch(wt_deliveries w := [assignment q job])"
    have line: "line_ok ws ?ch"
      using Cons.prems(1) by (intro line_ok_fill) (simp_all add: line_ok_Cons)
    have "push_loop q tm env (Suc k) ws ?ch d1 = (r, k', ws', ch', d')"
      using Cons.prems dq res by (simp add: line_ok_Cons chan_send_empty)
    from Cons.IH [OF line this] show ?thesis
      by (auto intro: exI [of _ "Suc n" for n])
  next
    case False
    then have "(\<exists>err. res = Inl err) \<or> res = Inr None" by (cases res) auto
    with Cons.prems dq show ?thesis
      by (auto intro: exI [of _ 0])
  qed
qed (auto intro: exI [of _ 0])

lemma armLocked_simps [simp]:
  "ds_waiters (fst (armLocked q x dis d)) = ds_waiters dis"
  "snd (armLocked q x dis d) = (if ds_waiters dis = [] then d else meet (q_store q) x d)"
proof -
  obtain d1 res where nv: "NextVisible (q_store q) (env_call x) (meet (q_store q) x d) = (d1, res)"
    by fastforce
  with fst_NextVisible [of "q_store q" "env_call x" "meet (q_store q) x d"]
  have "d1 = meet (q_store q) x d" by simp
  with nv show "ds_waiters (fst (armLocked q x dis d)) = ds_waiters dis"
    "snd (armLocked q x dis d) = (if ds_waiters dis = [] then d else meet (q_store q) x d)"
    by (auto simp: armLocked_def Queue_NextVisible_def split: sum.split prod.split)
qed

text \<open>A leading server's pass in terms of its loop.\<close>

lemma pushLocked_leading:
  assumes "Leading (pu_leading env)"
    and "push_loop q (Term (pu_term env)) (pu_db env) 0 (ds_waiters (hb_dis hb)) (hb_chans hb)
           (hb_db hb) = (r, k, ws, ch, d)"
  shows "ds_waiters (hb_dis (fst (pushLocked q env hb))) = ws"
    and "hb_chans (fst (pushLocked q env hb)) = ch"
    and "hb_db (fst (pushLocked q env hb)) =
      (if r = Passed \<and> ws \<noteq> [] then meet (q_store q) (pu_db env k) d else d)"
    and "snd (pushLocked q env hb) = (case r of SendBlocks c a \<Rightarrow> Some (c, a) | _ \<Rightarrow> None)"
    and "r = Passed \<Longrightarrow> hb_dis (fst (pushLocked q env hb)) =
      fst (armLocked q (pu_db env k) ((hb_dis hb)\<lparr>ds_waiters := ws\<rparr>) d)"
proof -
  obtain dis' d' where arm: "armLocked q (pu_db env k) ((hb_dis hb)\<lparr>ds_waiters := ws\<rparr>) d = (dis', d')"
    by fastforce
  with armLocked_simps [of q "pu_db env k" "(hb_dis hb)\<lparr>ds_waiters := ws\<rparr>" d]
  have "ds_waiters dis' = ws" "d' = (if ws = [] then d else meet (q_store q) (pu_db env k) d)"
    by simp_all
  note dis' = this
  have eq: "pushLocked q env hb = (case r of
      ClaimFailed err \<Rightarrow> (\<lparr>hb_dis = (hb_dis hb)\<lparr>ds_waiters := ws\<rparr>, hb_chans = ch, hb_db = d\<rparr>, None)
    | SendBlocks c a \<Rightarrow> (\<lparr>hb_dis = (hb_dis hb)\<lparr>ds_waiters := ws\<rparr>, hb_chans = ch, hb_db = d\<rparr>, Some (c, a))
    | Passed \<Rightarrow> (\<lparr>hb_dis = dis', hb_chans = ch, hb_db = d'\<rparr>, None))"
    by (cases r) (simp_all add: pushLocked_def assms arm Let_def)
  show "ds_waiters (hb_dis (fst (pushLocked q env hb))) = ws"
    "hb_chans (fst (pushLocked q env hb)) = ch"
    "hb_db (fst (pushLocked q env hb)) =
      (if r = Passed \<and> ws \<noteq> [] then meet (q_store q) (pu_db env k) d else d)"
    "snd (pushLocked q env hb) = (case r of SendBlocks c a \<Rightarrow> Some (c, a) | _ \<Rightarrow> None)"
    by (simp_all add: eq dis' split: pass_end.split)
  show "r = Passed \<Longrightarrow> hb_dis (fst (pushLocked q env hb)) =
      fst (armLocked q (pu_db env k) ((hb_dis hb)\<lparr>ds_waiters := ws\<rparr>) d)"
    by (simp add: eq arm)
qed

lemma pushLocked_ok:
  assumes "hub_ok hb"
  shows "snd (pushLocked q env hb) = None \<and> hub_ok (fst (pushLocked q env hb))"
proof (cases "Leading (pu_leading env)")
  case True
  obtain r k ws ch d where loop: "push_loop q (Term (pu_term env)) (pu_db env) 0
      (ds_waiters (hb_dis hb)) (hb_chans hb) (hb_db hb) = (r, k, ws, ch, d)"
    by (metis prod_cases5)
  from push_loop_ok [OF assms loop] pushLocked_leading [OF True loop] show ?thesis
    by (simp split: pass_end.split)
qed (use assms in \<open>simp add: pushLocked_def\<close>)

lemma Push_ok:
  "hub_ok hb \<Longrightarrow> snd (Push q stop env hb) = None \<and> hub_ok (fst (Push q stop env hb))"
  using pushLocked_ok [of hb q env] by (simp add: Push_def)

lemma register_never_blocks:
  assumes "hub_ok hb" and "wt_workerID w \<noteq> ''''" and "hb_chans hb (wt_deliveries w) = []"
    and "wt_deliveries w \<notin> wt_deliveries ` set (ds_waiters (hb_dis hb))"
  shows "snd (register q env w hb) = None \<and> hub_ok (fst (register q env w hb))"
proof (cases "wt_workerID w \<in> wt_workerID ` set (ds_waiters (hb_dis hb))")
  case True
  with assms(1) show ?thesis by (auto simp: register_def)
next
  case False
  with assms have "hub_ok (hb\<lparr>hb_dis := (hb_dis hb)\<lparr>ds_waiters := ds_waiters (hb_dis hb) @ [w]\<rparr>\<rparr>)"
    by (simp add: line_ok_append)
  from pushLocked_ok [OF this] assms(1) show ?thesis by (auto simp: register_def)
qed

text \<open>
  A send to a worker in line never blocks: as long as every worker and every channel is in
  line at most once and nothing is undelivered on the channel of a worker in line, no
  registration, push or timer hangs in a send, and each of them and \<open>forget\<close> leaves the line
  in that state, whatever the database, other nodes and the leadership do meanwhile.
\<close>

lemma dispatch_never_blocks:
  assumes "hub_ok hb" and "wt_workerID w \<noteq> ''''" and "hb_chans hb (wt_deliveries w) = []"
    and "wt_deliveries w \<notin> wt_deliveries ` set (ds_waiters (hb_dis hb))"
  shows "snd (register q env w hb) = None \<and> hub_ok (fst (register q env w hb))
    \<and> snd (Push q stop env hb) = None \<and> hub_ok (fst (Push q stop env hb))
    \<and> snd (timer_fires q stop env hb) = None \<and> hub_ok (fst (timer_fires q stop env hb))
    \<and> hub_ok (forget i hb)"
proof -
  have "hub_ok (hb\<lparr>hb_dis := (hb_dis hb)\<lparr>ds_timer := Fired\<rparr>\<rparr>)" using assms(1) by simp
  note fired = pushLocked_ok [OF this]
  from register_never_blocks [OF assms, of q env] assms(1) fired pushLocked_ok [OF assms(1)] show ?thesis
    by (simp add: Push_def timer_fires_def forget_def line_ok_drop_waiter)
qed

definition leader1 :: Leadership where
  "leader1 = \<lparr>ld_reapEvery = 5 * second, ld_isLead = True, ld_term = 1, ld_leadCtx = 1,
     ld_cancel = Some 1, ld_stopped = False\<rparr>"

definition push_at :: "ts \<Rightarrow> push_env" where
  "push_at t = \<lparr>pu_leading = leader1, pu_term = leader1, pu_db = (\<lambda>_. env_at t)\<rparr>"

definition hub1 :: hub where
  "hub1 = \<lparr>hb_dis = \<lparr>ds_waiters = [\<lparr>wt_workerID = ''w2'', wt_deliveries = 0\<rparr>,
       \<lparr>wt_workerID = ''w3'', wt_deliveries = 1\<rparr>], ds_timer = NilTimer\<rparr>,
     hb_chans = (\<lambda>_. []), hb_db = db1\<rparr>"

lemma hub1_ok [simp]: "hub_ok hub1"
  by (simp add: hub1_def line_ok_def)

lemma push_at_simps [simp]:
  "env_before (pu_db (push_at t) k) = []" "env_call (pu_db (push_at t) k) = call_at t"
  "Leading (pu_leading (push_at t))" "Term (pu_term (push_at t)) = 1"
  by (simp_all add: push_at_def env_at_def leader1_def Leading_def Term_def)

section \<open>Workers are served in order\<close>

text \<open>Worker \<open>w\<close> holds the lease of the job, and the job's row is what the message says.\<close>

definition leased_as :: "db \<Rightarrow> Job \<Rightarrow> string \<Rightarrow> bool" where
  "leased_as d job w \<longleftrightarrow> holds_lease d (job_Id job) w
     \<and> map_option job_of_row (job_of d (job_Id job)) = Some job"

text \<open>A claim gives its worker a lease and takes none away.\<close>

lemma DequeueJob_holds:
  assumes "engine_ok e" and "distinct (map jr_id (jobs d))"
    and "DequeueJob e c tm w lease d = (d', Inr (Some j))"
  shows "leased_as d' j w"
proof -
  from assms obtain v r where "job_of d (job_Id j) = Some v"
      "claim_row e (now c) tm w lease v = Inr r" "d' = set_job (job_Id j) r d" "j = job_of_row r"
      "jr_id r = job_Id j"
    by (rule DequeueJob_row)
  then show ?thesis
    by (auto simp: leased_as_def holds_lease_def job_of_set_job claim_row_def split: sum.splits)
qed

lemma DequeueJob_keeps_leases:
  assumes "engine_ok e" and "distinct (map jr_id (jobs d))" and "leased_as d job v"
  shows "leased_as (fst (DequeueJob e c tm w lease d)) job v"
proof -
  from assms(3) obtain r where "job_of d (job_Id job) = Some r" "jr_state r = ''processing''"
      "jr_worker_id r = v" "job_of_row r = job"
    by (auto simp: leased_as_def elim: holds_leaseE)
  with DequeueJob_keeps_claimed [OF assms(1,2)] show ?thesis by (auto simp: leased_as_def holds_lease_def)
qed

lemma DequeueJob_ids:
  "distinct (map jr_id (jobs d)) \<Longrightarrow> distinct (map jr_id (jobs (fst (DequeueJob e c tm w lease d))))"
  using apply_op_ids [of d e c "OpDequeue tm w lease"] by simp

lemma push_loop_keeps_leases:
  assumes "engine_ok (q_store q)" and "distinct (map jr_id (jobs d))" and "\<forall>k. env_before (env k) = []"
    and "leased_as d job v"
  shows "leased_as (snd (snd (snd (snd (push_loop q tm env k ws ch d))))) job v"
  using assms(2,4)
proof (induction ws arbitrary: k ch d)
  case (Cons w ws)
  obtain d1 res where dq: "DequeueJob (q_store q) (env_call (env k)) tm (wt_workerID w)
      (q_leaseFor q) d = (d1, res)" by fastforce
  have "distinct (map jr_id (jobs d1))" "leased_as d1 job v"
    using DequeueJob_ids [OF Cons.prems(1), of "q_store q" "env_call (env k)" tm "wt_workerID w" "q_leaseFor q"]
      DequeueJob_keeps_leases [OF assms(1) Cons.prems, of "env_call (env k)" tm "wt_workerID w" "q_leaseFor q"]
      dq by simp_all
  with Cons.IH dq assms(3) show ?case
    by (simp add: meet_def Queue_Dequeue_def split: sum.split option.split)
qed simp

text \<open>Worker \<open>w\<close> has been sent one job, which it holds.\<close>

definition served :: "Queue \<Rightarrow> chans \<Rightarrow> db \<Rightarrow> waiter \<Rightarrow> bool" where
  "served q ch d w \<longleftrightarrow> (case ch (wt_deliveries w) of
      [a] \<Rightarrow> (case assigned_Job a of
          Some job \<Rightarrow> a = assignment q job \<and> leased_as d job (wt_workerID w)
        | None \<Rightarrow> False)
    | _ \<Rightarrow> False)"

lemma servedI:
  "ch (wt_deliveries w) = [assignment q job] \<Longrightarrow> leased_as d job (wt_workerID w) \<Longrightarrow>
     served q ch d w"
  by (simp add: served_def assignment_def)

lemma push_loop_others:
  assumes "line_ok ws ch" and "c \<notin> wt_deliveries ` set ws"
  shows "fst (snd (snd (snd (push_loop q tm env k ws ch d)))) c = ch c"
  using assms
proof (induction ws arbitrary: k ch d)
  case (Cons w ws)
  have line: "line_ok ws (ch(wt_deliveries w := [a]))" for a
    using Cons.prems(1) by (intro line_ok_fill) (simp_all add: line_ok_Cons)
  have "fst (snd (snd (snd (push_loop q tm env k ws (ch(wt_deliveries w := [a])) d)))) c = ch c" for k a d
    by (rule trans [OF Cons.IH [OF line]]) (use Cons.prems(2) in simp_all)
  with Cons.prems show ?case
    by (simp add: line_ok_Cons chan_send_empty del: fun_upd_apply split: sum.split option.split prod.split)
qed simp

lemma push_loop_serves:
  assumes "engine_ok (q_store q)" and "\<forall>k. env_before (env k) = []"
    and "distinct (map jr_id (jobs d))" and "line_ok ws ch"
    and "push_loop q tm env k ws ch d = (r, k', ws', ch', d')"
  shows "\<exists>n \<le> length ws. ws' = drop n ws \<and> (\<forall>w \<in> set (take n ws). served q ch' d' w)
    \<and> (\<forall>c. c \<notin> wt_deliveries ` set (take n ws) \<longrightarrow> ch' c = ch c)"
  using assms(3-)
proof (induction ws arbitrary: k ch d)
  case (Cons w ws)
  obtain d1 res where dq: "DequeueJob (q_store q) (env_call (env k)) tm (wt_workerID w)
      (q_leaseFor q) d = (d1, res)" by fastforce
  have ids: "distinct (map jr_id (jobs d1))"
    using DequeueJob_ids [OF Cons.prems(1), of "q_store q" "env_call (env k)" tm "wt_workerID w" "q_leaseFor q"]
      dq by simp
  show ?case
  proof (cases "\<exists>job. res = Inr (Some job)")
    case True
    then obtain job where res: "res = Inr (Some job)" ..
    let ?ch = "ch(wt_deliveries w := [assignment q job])"
    have line: "line_ok ws ?ch"
      using Cons.prems(2) by (intro line_ok_fill) (simp_all add: line_ok_Cons)
    have rest: "push_loop q tm env (Suc k) ws ?ch d1 = (r, k', ws', ch', d')"
      using Cons.prems dq res assms(2)
      by (simp add: line_ok_Cons chan_send_empty meet_def Queue_Dequeue_def)
    have "leased_as d1 job (wt_workerID w)"
      using DequeueJob_holds [OF assms(1) Cons.prems(1)] dq res by blast
    then have "leased_as d' job (wt_workerID w)"
      using push_loop_keeps_leases [OF assms(1) ids assms(2), of job "wt_workerID w" tm "Suc k" ws ?ch]
        rest by simp
    moreover have "ch' (wt_deliveries w) = [assignment q job]"
      using push_loop_others [OF line, of "wt_deliveries w" q tm env "Suc k" d1] rest Cons.prems(2)
      by (simp add: line_ok_Cons)
    ultimately have w: "served q ch' d' w" by (intro servedI)
    from Cons.IH [OF ids line rest] obtain n where "n \<le> length ws" "ws' = drop n ws"
        "\<forall>x \<in> set (take n ws). served q ch' d' x"
        "\<forall>c. c \<notin> wt_deliveries ` set (take n ws) \<longrightarrow> ch' c = ?ch c"
      by blast
    with w show ?thesis by (intro exI [of _ "Suc n"]) simp
  next
    case False
    then have "(\<exists>err. res = Inl err) \<or> res = Inr None" by (cases res) auto
    with Cons.prems dq assms(2) show ?thesis
      by (auto simp: meet_def Queue_Dequeue_def intro: exI [of _ 0])
  qed
qed simp

lemma Push_serves:
  assumes "engine_ok (q_store q)" and "\<forall>k. env_before (pu_db env k) = []"
    and "distinct (map jr_id (jobs (hb_db hb)))" and "hub_ok hb" and "Leading (pu_leading env)"
    and "fst (Push q False env hb) = hb'" and "ws = ds_waiters (hb_dis hb)"
  shows "\<exists>n \<le> length ws. ds_waiters (hb_dis hb') = drop n ws
    \<and> (\<forall>w \<in> set (take n ws). served q (hb_chans hb') (hb_db hb') w)
    \<and> (\<forall>c. c \<notin> wt_deliveries ` set (take n ws) \<longrightarrow> hb_chans hb' c = hb_chans hb c)"
proof -
  obtain r k ws' ch d where loop: "push_loop q (Term (pu_term env)) (pu_db env) 0
      ws (hb_chans hb) (hb_db hb) = (r, k, ws', ch, d)"
    by (metis prod_cases5)
  have "meet (q_store q) (pu_db env k) d = d" using assms(2) by (simp add: meet_def)
  then have "ds_waiters (hb_dis hb') = ws'" "hb_chans hb' = ch" "hb_db hb' = d"
    using pushLocked_leading [OF assms(5) loop [unfolded assms(7)]] assms(6)
    by (auto simp: Push_def)
  with push_loop_serves [OF assms(1,2,3) assms(4) [folded assms(7)] loop] show ?thesis by simp
qed



section \<open>No lost wake-up\<close>

lemma DequeueJob_total:
  assumes "engine_ok e" and "distinct (map jr_id (jobs d))" and "flt c = NoFault"
    and "ts_in_range (now c + make_interval lease)" and "fits64 (make_interval lease)"
  shows "\<not> isl (snd (DequeueJob e c tm w lease d))"
  using sql_dequeue_eq [OF assms(1,2), of c tm w lease] claim_row_total [OF assms(1,4,5)]
  by (auto simp: DequeueJob_def exec_ok [OF assms(3)] stmt_state_def stmt_result_def)

text \<open>Calls that are answered and meet no other node, with every new lease in range.\<close>

definition quiet :: "Queue \<Rightarrow> (nat \<Rightarrow> db_env) \<Rightarrow> bool" where
  "quiet q env \<longleftrightarrow> fits64 (make_interval (q_leaseFor q)) \<and>
     (\<forall>k. env_before (env k) = [] \<and> flt (env_call (env k)) = NoFault
        \<and> ts_in_range (now (env_call (env k)) + make_interval (q_leaseFor q)))"

lemma quietD:
  assumes "quiet q env"
  shows "fits64 (make_interval (q_leaseFor q))" "meet e (env k) d = d" "flt (env_call (env k)) = NoFault"
    "ts_in_range (now (env_call (env k)) + make_interval (q_leaseFor q))"
  using assms by (simp_all add: quiet_def meet_def)

lemma push_loop_quiet:
  assumes "engine_ok (q_store q)" and "quiet q env" and "0 \<le> tm"
    and "db_ok d" and "line_ok ws ch" and "push_loop q tm env k ws ch d = (r, k', ws', ch', d')"
  shows "r = Passed \<and> db_ok d'
    \<and> (ws' \<noteq> [] \<longrightarrow> (\<exists>j. \<forall>x \<in> set (jobs d'). \<not> visible (env_call (env j)) x))"
  using assms(4-)
proof (induction ws arbitrary: k ch d)
  case (Cons w ws)
  let ?c = "env_call (env k)"
  obtain d1 res where dq: "DequeueJob (q_store q) ?c tm (wt_workerID w) (q_leaseFor q) d = (d1, res)"
    by fastforce
  have ids: "distinct (map jr_id (jobs d))" using Cons.prems(1) by (rule db_ok_ids)
  have ok: "db_ok d1"
    using apply_op_ok [OF assms(1) Cons.prems(1), of "OpDequeue tm (wt_workerID w) (q_leaseFor q)" ?c]
      Cons.prems(2) assms(3) dq by (simp add: line_ok_Cons)
  have "\<not> isl res"
    using DequeueJob_total [OF assms(1) ids quietD(3,4,1) [OF assms(2)], of k tm "wt_workerID w"] dq
    by simp
  then consider "res = Inr None" | job where "res = Inr (Some job)" by (cases res) auto
  then show ?case
  proof cases
    case 1
    with Cons.prems dq quietD(2) [OF assms(2)] have "r = Passed" "d' = d1"
      by (simp_all add: Queue_Dequeue_def)
    with ok DequeueJob_None [OF assms(1) ids, of ?c tm "wt_workerID w" "q_leaseFor q" d1] dq 1
    show ?thesis by auto
  next
    case (2 job)
    let ?ch = "ch(wt_deliveries w := [assignment q job])"
    have line: "line_ok ws ?ch"
      using Cons.prems(2) by (intro line_ok_fill) (simp_all add: line_ok_Cons)
    have "push_loop q tm env (Suc k) ws ?ch d1 = (r, k', ws', ch', d')"
      using Cons.prems dq 2 quietD(2) [OF assms(2)]
      by (simp add: line_ok_Cons chan_send_empty Queue_Dequeue_def)
    from Cons.IH [OF ok line this] show ?thesis .
  qed
qed simp

lemma armLocked_arms:
  assumes "db_ok d" and "ds_waiters dis \<noteq> []" and "env_before x = []" and "flt (env_call x) = NoFault"
    and "\<forall>r \<in> set (jobs d). fits64 ((the (jr_next_run_at r) - now (env_call x)) * 1000)"
    and "\<exists>r \<in> set (jobs d). jr_state r = ''pending''"
  shows "\<exists>w. ds_timer (fst (armLocked q x dis d)) = Armed w \<and> minArm \<le> w
    \<and> (\<forall>r \<in> set (jobs d). jr_state r = ''pending'' \<longrightarrow>
         w \<le> max minArm ((the (jr_next_run_at r) - now (env_call x)) * 1000))"
proof -
  from NextVisible_answer [OF assms(1,4,5), of "q_store q"] assms(6) obtain m
    where m: "NextVisible (q_store q) (env_call x) d = (d, Inr ((m - now (env_call x)) * 1000, True))"
      "\<forall>r \<in> set (jobs d). jr_state r = ''pending'' \<longrightarrow> m \<le> the (jr_next_run_at r)"
    by auto
  then have "ds_timer (fst (armLocked q x dis d)) = Armed (max minArm ((m - now (env_call x)) * 1000))"
    using assms(2,3) by (auto simp: armLocked_def meet_def Queue_NextVisible_def max_def)
  moreover have "max minArm ((m - t) * 1000) \<le> max minArm ((n - t) * 1000)" if "m \<le> n" for n t
    using that by auto
  ultimately show ?thesis using m(2) by auto
qed


definition db_backoff :: db where
  "db_backoff = db1\<lparr>jobs := [job2\<lparr>jr_next_run_at := Some 900000\<rparr>]\<rparr>"

definition hub2 :: hub where
  "hub2 = hub1\<lparr>hb_db := db_backoff\<rparr>"

lemma push_hub2:
  "Push queue1 False (push_at 5000) hub2 =
     (hub2\<lparr>hb_dis := (hb_dis hub2)\<lparr>ds_timer := Armed 895000000\<rparr>\<rparr>, None)"
  by (simp add: Push_def pushLocked_def hub2_def hub1_def Queue_Dequeue_def DequeueJob_def exec_ok
      stmt_state_def stmt_result_def sql_dequeue_def queue1_def seq_engine_def visible_def db_backoff_def
      db1_def job2_def meet_def armLocked_def Queue_NextVisible_def NextVisible_def sql_next_visible_def
      min_ts_def float_to_int64_def fits64_def minArm_def millisecond_def List.map_filter_def)


section \<open>How the line gets out of order\<close>

text \<open>
  A worker that is put in line again before its last assignment has been taken off its
  channel stops the dispatcher: if the server leads, nobody else waits and a job is visible,
  its own registration claims the job and hangs in the send to the full channel, with the
  mutex held and the one goroutine that empties that channel being the one that hangs.
\<close>

lemma registering_twice_blocks:
  assumes "engine_ok (q_store q)" and "db_ok (hb_db hb)" and "quiet q (pu_db env)"
    and "Leading (pu_leading env)" and "ds_waiters (hb_dis hb) = []"
    and "hb_chans hb (wt_deliveries w) \<noteq> []"
    and "r \<in> set (jobs (hb_db hb))" and "visible (env_call (pu_db env 0)) r"
  shows "\<exists>job. snd (register q env w hb) = Some (wt_deliveries w, assignment q job)
    \<and> holds_lease (hb_db (fst (register q env w hb))) (job_Id job) (wt_workerID w)"
proof -
  let ?c = "env_call (pu_db env 0)" and ?d = "hb_db hb"
  let ?hb = "hb\<lparr>hb_dis := (hb_dis hb)\<lparr>ds_waiters := [w]\<rparr>\<rparr>"
  obtain d1 res where dq: "DequeueJob (q_store q) ?c (Term (pu_term env)) (wt_workerID w)
      (q_leaseFor q) ?d = (d1, res)" by fastforce
  have ids: "distinct (map jr_id (jobs ?d))" using assms(2) by (rule db_ok_ids)
  have "\<not> isl res" "res \<noteq> Inr None"
    using DequeueJob_total [OF assms(1) ids quietD(3,4,1) [OF assms(3)], of 0 "Term (pu_term env)" "wt_workerID w"]
      DequeueJob_None [OF assms(1) ids, of ?c "Term (pu_term env)" "wt_workerID w" "q_leaseFor q" d1]
      dq assms(7,8) by auto
  then obtain job where job: "res = Inr (Some job)" by (cases res) auto
  have "chan_send (wt_deliveries w) (assignment q job) (hb_chans hb) = None"
    using assms(6) by (simp add: chan_send_def)
  with dq job quietD(2) [OF assms(3)]
  have loop: "push_loop q (Term (pu_term env)) (pu_db env) 0 (ds_waiters (hb_dis ?hb)) (hb_chans ?hb)
      (hb_db ?hb) = (SendBlocks (wt_deliveries w) (assignment q job), 1, [], hb_chans hb, d1)"
    by (simp add: Queue_Dequeue_def)
  have "register q env w hb = pushLocked q env ?hb" using assms(5) by (simp add: register_def)
  with pushLocked_leading [OF assms(4) loop] DequeueJob_holds [OF assms(1) ids] dq job show ?thesis
    by (auto simp: leased_as_def)
qed

text \<open>
  C38: A worker that reconnects before the server has noticed the end of its old stream loses
  its place: its new stream is not put in line, because its name already is, with the old
  stream's channel; and when the old stream ends, \<open>forget\<close> takes that name out of the line, so
  the worker waits on a stream that nothing will be sent on.
\<close>

theorem reconnect_loses_place:
  assumes "hub_ok hb" and "old \<in> set (ds_waiters (hb_dis hb))"
    and "wt_workerID new = wt_workerID old"
  shows "register q env new hb = (hb, None)
    \<and> wt_workerID new \<notin> wt_workerID ` set (ds_waiters (hb_dis (forget (wt_workerID old) hb)))"
  using assms drop_waiter_gone [of "ds_waiters (hb_dis hb)" "wt_workerID old"]
  by (auto simp: register_def forget_def line_ok_def)

theorem reconnect_loses_place_witness:
  "register queue1 (push_at 5000) \<lparr>wt_workerID = ''w2'', wt_deliveries = 7\<rparr> hub1 = (hub1, None)
   \<and> ''w2'' \<notin> wt_workerID ` set (ds_waiters (hb_dis (forget ''w2'' hub1)))"
  using reconnect_loses_place [OF hub1_ok, of "\<lparr>wt_workerID = ''w2'', wt_deliveries = 0\<rparr>"
      "\<lparr>wt_workerID = ''w2'', wt_deliveries = 7\<rparr>" queue1 "push_at 5000"]
  by (simp add: hub1_def)

end
