(* ===== verification/Job_Stream.thy ===== *)
theory Job_Stream
  imports Dispatch_Guarantees
begin

text \<open>
  \<open>internal/server/stream.go\<close> and \<open>server.go\<close>: the \<open>Enqueue\<close> call, the greeting that admits a worker
  stream, the answers to what a worker reports, and one turn of the stream's \<open>select\<close> loop. What
  goes to standard error is returned as a list of lines.
\<close>

section \<open>Answering a worker\<close>

definition result_msg :: "engine \<Rightarrow> string \<Rightarrow> Outcome \<Rightarrow> goerror option \<Rightarrow> ServerMessage" where
  "result_msg e jobID outcome reason = ServerMessage_Result \<lparr>
     result_JobId = jobID,
     result_Outcome = outcome,
     result_Error = (case reason of None \<Rightarrow> '''' | Some err \<Rightarrow> errorString (sql_msg e) err)\<rparr>"

definition logFenced :: "goerror \<Rightarrow> string \<Rightarrow> string \<Rightarrow> string \<Rightarrow> string list" where
  "logFenced err what jobID workerID =
     (if errors_Is err ErrLeaseLost
      then [''[Server] fenced late '' @ what @ '' for job '' @ jobID @ '' from worker '' @ workerID]
      else [])"

text \<open>The database, the reply if there is one, whether the worker is free, and the log.\<close>

definition answer :: "Queue \<Rightarrow> db_env \<Rightarrow> string \<Rightarrow> WorkerMessage \<Rightarrow> db \<Rightarrow>
    db \<times> ServerMessage option \<times> bool \<times> string list" where
  "answer q x workerID msg d0 = (let e = q_store q; c = env_call x; d = meet e x d0 in
     case msg of
       WorkerMessage_Hello _ \<Rightarrow> (d, None, False, [])
     | WorkerMessage_Heartbeat m \<Rightarrow>
         let jobID = beat_JobId m in
         (case Queue_Heartbeat q c jobID workerID d of
            (d', Inl err) \<Rightarrow> (d', None, False,
              [''[Server] heartbeat for job '' @ jobID @ '' from worker '' @ workerID @ '': ''
                 @ errorString (sql_msg e) err])
          | (d', Inr renewed) \<Rightarrow>
              if renewed then (d', None, False, [])
              else (d', Some (ServerMessage_Lost \<lparr>lost_JobId = jobID\<rparr>), True,
                [''[Server] revoked job '' @ jobID @ '' from worker '' @ workerID @ '': lease expired'']))
     | WorkerMessage_Completed m \<Rightarrow>
         let jobID = completed_JobId m in
         (case Queue_Complete q c jobID workerID d of
            (d', Some err) \<Rightarrow> (d', Some (result_msg e jobID OUTCOME_REFUSED (Some err)), True,
              logFenced err ''completion'' jobID workerID)
          | (d', None) \<Rightarrow> (d', Some (result_msg e jobID OUTCOME_ACCEPTED None), True, []))
     | WorkerMessage_Failed m \<Rightarrow>
         let jobID = failed_JobId m in
         (case Queue_Fail q c jobID workerID (failed_ErrorMessage m) d of
            (d', Inl err) \<Rightarrow> (d', Some (result_msg e jobID OUTCOME_REFUSED (Some err)), True,
              logFenced err ''failure'' jobID workerID)
          | (d', Inr retrying) \<Rightarrow>
              let outcome = (if retrying then OUTCOME_RETRYING else OUTCOME_DEAD_LETTERED) in
              (d', Some (result_msg e jobID outcome None), True, []))
     | WorkerMessage_Unset \<Rightarrow> (d, None, False, []))"

section \<open>Enqueue\<close>

text \<open>
  \<open>uuid\<close> is the fresh identifier given to a job without one. The response is missing when the
  push hangs.
\<close>

definition Enqueue :: "Queue \<Rightarrow> string \<Rightarrow> db_env \<Rightarrow> bool \<Rightarrow> push_env \<Rightarrow> EnqueueRequest option \<Rightarrow> hub \<Rightarrow>
    hub \<times> (nat \<times> Assigned) option \<times> EnqueueResponse option" where
  "Enqueue q uuid x ctx_err env req hb = (case EnqueueRequest_GetJob req of
      None \<Rightarrow> (hb, None, Some \<lparr>resp_JobId = '''', resp_Error = ''missing job data''\<rparr>)
    | Some j \<Rightarrow>
        let job = (if job_Id j = '''' then j\<lparr>job_Id := uuid\<rparr> else j) in
        (case Queue_Enqueue q (env_call x) job (meet (q_store q) x (hb_db hb)) of
           (d, Some err) \<Rightarrow> (hb\<lparr>hb_db := d\<rparr>, None,
              Some \<lparr>resp_JobId = '''', resp_Error = errorString (sql_msg (q_store q)) err\<rparr>)
         | (d, None) \<Rightarrow>
             (case Push q ctx_err env (hb\<lparr>hb_db := d\<rparr>) of
                (hb', Some hung) \<Rightarrow> (hb', Some hung, None)
              | (hb', None) \<Rightarrow> (hb', None, Some \<lparr>resp_JobId = job_Id job, resp_Error = ''''\<rparr>))))"

section \<open>JobStream\<close>

datatype code = InvalidArgument | Unavailable

datatype stream_end = EndNil | EndErr goerror | EndStatus code string

text \<open>The first message: the error that ends the stream, or the worker's name.\<close>

definition admit :: "goerror + WorkerMessage \<Rightarrow> Leadership \<Rightarrow> stream_end + string" where
  "admit recv lead = (case recv of
      Inl err \<Rightarrow> Inl (EndErr err)
    | Inr greeting \<Rightarrow>
        let workerID = GetWorkerId (GetHello greeting) in
        if workerID = '''' then Inl (EndStatus InvalidArgument
          ''the first message on a job stream must be a Hello naming the worker'')
        else if \<not> Leading lead then Inl (EndStatus Unavailable
          ''not the leader; reconnect to be routed to it'')
        else Inr workerID)"

text \<open>An admitted stream: its waiter, and what has been sent to the worker, newest last.\<close>

record stream =
  sm_waiter :: waiter
  sm_sent :: "ServerMessage list"

text \<open>The case the \<open>select\<close> takes.\<close>

datatype select_case =
    GotDelivery
  | GotMessage WorkerMessage
  | GotRecvErr goerror
  | CtxDone
  | LeadDone

text \<open>
  What a turn meets: the database call of \<open>answer\<close>, the error \<open>stream.Send\<close> returns if it does, a
  pass of the dispatcher, and the leadership with its contexts for \<open>LeadCtx().Done()\<close>.
\<close>

record turn_env =
  tn_db :: db_env
  tn_send_err :: "goerror option"
  tn_push :: push_env
  tn_lead :: Leadership
  tn_ctxs :: ctxs

datatype turn = NotReady | Goes stream hub | Ends stream_end hub | Hangs hub "nat \<times> Assigned"

text \<open>
  A case whose channel has nothing to receive is not taken. However the loop ends, the deferred
  \<open>forget\<close> runs.
\<close>

definition send_then :: "goerror option \<Rightarrow> ServerMessage \<Rightarrow> stream \<Rightarrow> hub \<Rightarrow> (stream \<Rightarrow> turn) \<Rightarrow> turn" where
  "send_then err m s hb k = (case err of
      Some er \<Rightarrow> Ends (EndErr er) (forget (wt_workerID (sm_waiter s)) hb)
    | None \<Rightarrow> k (s\<lparr>sm_sent := sm_sent s @ [m]\<rparr>))"

definition register_then :: "Queue \<Rightarrow> push_env \<Rightarrow> bool \<Rightarrow> hub \<Rightarrow> stream \<Rightarrow> turn" where
  "register_then q env free hb s =
     (if free then (case register q env (sm_waiter s) hb of
          (hb', None) \<Rightarrow> Goes s hb'
        | (hb', Some hung) \<Rightarrow> Hangs hb' hung)
      else Goes s hb)"

definition stream_turn :: "Queue \<Rightarrow> turn_env \<Rightarrow> select_case \<Rightarrow> stream \<Rightarrow> hub \<Rightarrow> turn" where
  "stream_turn q env sel s hb = (let w = sm_waiter s in case sel of
      GotDelivery \<Rightarrow> (case hb_chans hb (wt_deliveries w) of
          [] \<Rightarrow> NotReady
        | a # as \<Rightarrow>
            let hb' = hb\<lparr>hb_chans := (hb_chans hb)(wt_deliveries w := as)\<rparr> in
            send_then (tn_send_err env) (ServerMessage_Assigned a) s hb' (\<lambda>s'. Goes s' hb'))
    | GotMessage msg \<Rightarrow> (case answer q (tn_db env) (wt_workerID w) msg (hb_db hb) of
          (d, reply, free, log) \<Rightarrow>
            let hb' = hb\<lparr>hb_db := d\<rparr> in
            (case reply of
               Some m \<Rightarrow> send_then (tn_send_err env) m s hb' (register_then q (tn_push env) free hb')
             | None \<Rightarrow> register_then q (tn_push env) free hb' s))
    | GotRecvErr err \<Rightarrow> Ends (EndErr err) (forget (wt_workerID w) hb)
    | CtxDone \<Rightarrow> Ends EndNil (forget (wt_workerID w) hb)
    | LeadDone \<Rightarrow>
        if ctx_done (tn_ctxs env) (LeadCtx (tn_lead env))
        then Ends EndNil (forget (wt_workerID w) hb) else NotReady)"

end
