(* ===== verification/Stream_Guarantees.thy ===== *)
theory Stream_Guarantees
  imports Job_Stream
begin

text \<open>
  What the stream and the \<open>Enqueue\<close> call guarantee. The first section shows that everything the
  dispatcher and the streams do to the database is a sequence of store operations with
  arguments of the kind the store's invariant asks for; the others state the answers.
\<close>

section \<open>Everything is a sequence of store operations\<close>

text \<open>\<open>d'\<close> is what some sequence of store operations, all of them in \<open>P\<close>, makes of \<open>d\<close>.\<close>

definition reaches :: "engine \<Rightarrow> (store_op \<Rightarrow> bool) \<Rightarrow> db \<Rightarrow> db \<Rightarrow> bool" where
  "reaches e P d d' \<longleftrightarrow> (\<exists>xs. d' = run_ops e xs d \<and> (\<forall>x \<in> set xs. P (snd x)))"

lemma run_ops_append: "run_ops e (xs @ ys) d = run_ops e ys (run_ops e xs d)"
  by (induction xs arbitrary: d) auto

lemma reaches_refl [simp]: "reaches e P d d"
  unfolding reaches_def by (rule exI [of _ "[]"]) simp

lemma reaches_trans: "reaches e P d1 d2 \<Longrightarrow> reaches e P d2 d3 \<Longrightarrow> reaches e P d1 d3"
  unfolding reaches_def by (metis (no_types, lifting) run_ops_append set_append Un_iff)

lemma reaches_op: "P op \<Longrightarrow> reaches e P d (apply_op e c op d)"
  unfolding reaches_def by (rule exI [of _ "[(c, op)]"]) simp

lemma reaches_mono: "reaches e P d d' \<Longrightarrow> (\<And>op. P op \<Longrightarrow> Q op) \<Longrightarrow> reaches e Q d d'"
  unfolding reaches_def by blast

definition calls_in :: "(store_op \<Rightarrow> bool) \<Rightarrow> ('a) db_env_scheme \<Rightarrow> bool" where
  "calls_in P x \<longleftrightarrow> list_all (\<lambda>y. P (snd y)) (env_before x)"

lemma reaches_meet: "calls_in P x \<Longrightarrow> reaches e P d (meet e x d)"
  unfolding reaches_def calls_in_def meet_def list_all_iff by blast

lemma reaches_meet_op:
  "calls_in P x \<Longrightarrow> P op \<Longrightarrow> reaches e P d (apply_op e c op (meet e x d))"
  by (blast intro: reaches_trans reaches_meet reaches_op)

lemma reaches_ok: "engine_ok e \<Longrightarrow> db_ok d \<Longrightarrow> reaches e op_ok d d' \<Longrightarrow> db_ok d'"
  unfolding reaches_def using run_ops_ok by blast

lemma push_loop_reaches:
  assumes "\<forall>k. calls_in P (env k)" and "\<forall>w \<in> set ws. P (OpDequeue tm (wt_workerID w) (q_leaseFor q))"
  shows "reaches (q_store q) P d (snd (snd (snd (snd (push_loop q tm env k ws ch d)))))"
  using assms(2)
proof (induction ws arbitrary: k ch d)
  case (Cons w ws)
  let ?e = "q_store q"
  obtain d1 res where dq: "DequeueJob ?e (env_call (env k)) tm (wt_workerID w) (q_leaseFor q)
      (meet ?e (env k) d) = (d1, res)" by fastforce
  with reaches_meet_op [of P "env k" "OpDequeue tm (wt_workerID w) (q_leaseFor q)" ?e d "env_call (env k)"]
    assms(1) Cons.prems
  have "reaches ?e P d d1" by simp
  with Cons.IH Cons.prems dq show ?case
    by (auto simp: Queue_Dequeue_def intro: reaches_trans split: sum.split option.split)
qed simp

lemma pushLocked_reaches:
  assumes "\<forall>k. calls_in P (pu_db env k)"
    and "\<forall>w \<in> set (ds_waiters (hb_dis hb)). P (OpDequeue (Term (pu_term env)) (wt_workerID w) (q_leaseFor q))"
  shows "reaches (q_store q) P (hb_db hb) (hb_db (fst (pushLocked q env hb)))"
proof (cases "Leading (pu_leading env)")
  case True
  obtain r k ws ch d where loop: "push_loop q (Term (pu_term env)) (pu_db env) 0
      (ds_waiters (hb_dis hb)) (hb_chans hb) (hb_db hb) = (r, k, ws, ch, d)"
    by (metis prod_cases5)
  with push_loop_reaches [OF assms, of "hb_db hb" 0 "hb_chans hb"]
  have "reaches (q_store q) P (hb_db hb) d" by simp
  moreover have "reaches (q_store q) P d (meet (q_store q) (pu_db env k) d)"
    using assms(1) by (intro reaches_meet) simp
  ultimately show ?thesis
    using pushLocked_leading(3) [OF True loop] by (auto intro: reaches_trans)
qed (simp add: pushLocked_def)

lemma register_reaches:
  assumes "\<forall>k. calls_in P (pu_db env k)"
    and "\<forall>x \<in> insert w (set (ds_waiters (hb_dis hb))).
      P (OpDequeue (Term (pu_term env)) (wt_workerID x) (q_leaseFor q))"
  shows "reaches (q_store q) P (hb_db hb) (hb_db (fst (register q env w hb)))"
  using pushLocked_reaches [OF assms(1), of
      "hb\<lparr>hb_dis := (hb_dis hb)\<lparr>ds_waiters := ds_waiters (hb_dis hb) @ [w]\<rparr>\<rparr>" q] assms(2)
  by (auto simp: register_def)

text \<open>The store operation a message asks for.\<close>

fun message_op :: "Queue \<Rightarrow> string \<Rightarrow> WorkerMessage \<Rightarrow> store_op option" where
  "message_op q w (WorkerMessage_Heartbeat m) = Some (OpHeartbeat (beat_JobId m) w (q_leaseFor q))"
| "message_op q w (WorkerMessage_Completed m) = Some (OpComplete (completed_JobId m) w)"
| "message_op q w (WorkerMessage_Failed m) =
     Some (OpFail (failed_JobId m) w (failed_ErrorMessage m) (q_retryDelay q))"
| "message_op q w _ = None"

lemma answer_db:
  "fst (answer q x w msg d) = (case message_op q w msg of
      None \<Rightarrow> meet (q_store q) x d
    | Some op \<Rightarrow> apply_op (q_store q) (env_call x) op (meet (q_store q) x d))"
  by (cases msg)
     (auto simp: answer_def queue_defs Let_def split: sum.split option.split prod.split
        dest: arg_cong [where f = fst])

lemma answer_reaches:
  assumes "calls_in P x" and "\<And>op. message_op q w msg = Some op \<Longrightarrow> P op"
  shows "reaches (q_store q) P d (fst (answer q x w msg d))"
  unfolding answer_db using assms by (auto intro: reaches_meet reaches_meet_op split: option.split)

section \<open>The answers to a worker\<close>

lemma held_exec:
  assumes "db_ok d" and "holder_of d i = Some w" and "flt c = NoFault"
  obtains r where "job_of d i = Some r" "jr_id r = i"
    "\<forall>f. exec c (update_jobs (held_by i w) f) d = (case f r of
        Inl x \<Rightarrow> (d, Inl (PgError x)) | Inr r' \<Rightarrow> (set_job i r' d, Inr [r']))"
proof (rule pg_held [OF assms(1,2)])
  fix r assume "job_of d i = Some r" "jr_id r = i"
    and "\<forall>c f. exec (calm c) (update_jobs (held_by i w) f) d = (case f r of
        Inl x \<Rightarrow> (d, Inl (PgError x)) | Inr r' \<Rightarrow> (set_job i r' d, Inr [r']))"
  from this(1,2) spec [OF this(3), of c] show thesis
    unfolding calm_id [OF assms(3)] by (rule that)
qed

lemma Complete_held:
  assumes "db_ok d" and "holder_of d i = Some w" and "flt c = NoFault"
  shows "\<exists>d' r'. Complete c i w d = (d', None) \<and> job_of d' i = Some r' \<and> jr_state r' = ''done''"
proof -
  from assms obtain r where r: "job_of d i = Some r" "jr_id r = i"
    and ex: "\<forall>f. exec c (update_jobs (held_by i w) f) d = (case f r of
        Inl x \<Rightarrow> (d, Inl (PgError x)) | Inr r' \<Rightarrow> (set_job i r' d, Inr [r']))"
    by (rule held_exec)
  show ?thesis
    using r ex assms(3) by (simp add: Complete_def finish_row_def RowsAffected_def job_of_set_job)
qed

lemma FailJob_held:
  assumes "db_ok d" and "holder_of d i = Some w" and "flt c = NoFault"
  shows "(\<exists>d' b r'. FailJob e c i w m bd d = (d', Inr b) \<and> job_of d' i = Some r'
      \<and> jr_state r' = (if b then ''pending'' else ''failed''))
    \<or> (\<exists>err. FailJob e c i w m bd d = (d, Inl err))"
proof -
  from assms obtain r where r: "job_of d i = Some r" "jr_id r = i"
    and ex: "\<forall>f. exec c (update_jobs (held_by i w) f) d = (case f r of
        Inl x \<Rightarrow> (d, Inl (PgError x)) | Inr r' \<Rightarrow> (set_job i r' d, Inr [r']))"
    by (rule held_exec)
  show ?thesis
  proof (cases "fail_row e (now c) m bd r")
    case (Inr r')
    then have "jr_id r' = i" "jr_state r' \<in> {''pending'', ''failed''}"
      using fail.key_kept [OF Inr] r(2) by (auto elim!: fail_row_Inr simp: retryDecision_def split: if_splits)
    with Inr ex r show ?thesis by (auto simp: FailJob_def job_of_set_job)
  qed (use ex in \<open>simp add: FailJob_def\<close>)
qed

lemma HeartbeatJob_held:
  assumes "db_ok d" and "holder_of d i = Some w" and "flt c = NoFault"
  shows "snd (HeartbeatJob e c i w lease d) \<noteq> Inr False"
proof -
  from assms obtain r where
    "\<forall>f. exec c (update_jobs (held_by i w) f) d = (case f r of
        Inl x \<Rightarrow> (d, Inl (PgError x)) | Inr r' \<Rightarrow> (set_job i r' d, Inr [r']))"
    by (rule held_exec)
  then show ?thesis
    using assms(3) by (simp add: HeartbeatJob_def RowsAffected_def split: sum.split)
qed

text \<open>
  C7: With the database answering, every answer a worker gets is true of the database and every
  report is answered. A completion is accepted exactly when the worker holds the job, which is
  then done, and is otherwise refused with the lost-lease error and changes nothing. A failure
  report of the holder is answered retrying or dead-lettered exactly as the job became pending
  or failed (or refused with an error of the database, changing nothing), and anybody else's is
  refused. A heartbeat of the holder is not answered; anybody else is told the job is lost. A
  worker is free after a result or a loss, and after nothing else.
\<close>

theorem answer_tells_truth:
  assumes "db_ok d" and "flt (env_call x) = NoFault" and "env_before x = []"
    and "answer q x w msg d = (d', reply, free, log)"
  shows "case msg of
      WorkerMessage_Completed m \<Rightarrow> free \<and>
        (if holder_of d (completed_JobId m) = Some w
         then reply = Some (result_msg (q_store q) (completed_JobId m) OUTCOME_ACCEPTED None)
            \<and> (\<exists>r. job_of d' (completed_JobId m) = Some r \<and> jr_state r = ''done'')
         else reply = Some (result_msg (q_store q) (completed_JobId m) OUTCOME_REFUSED (Some ErrLeaseLost))
            \<and> d' = d)
    | WorkerMessage_Failed m \<Rightarrow> free \<and>
        (if holder_of d (failed_JobId m) = Some w
         then (\<exists>r. job_of d' (failed_JobId m) = Some r \<and> (
                reply = Some (result_msg (q_store q) (failed_JobId m) OUTCOME_RETRYING None)
                  \<and> jr_state r = ''pending''
              \<or> reply = Some (result_msg (q_store q) (failed_JobId m) OUTCOME_DEAD_LETTERED None)
                  \<and> jr_state r = ''failed''))
            \<or> (\<exists>err. reply = Some (result_msg (q_store q) (failed_JobId m) OUTCOME_REFUSED (Some err)))
                \<and> d' = d
         else reply = Some (result_msg (q_store q) (failed_JobId m) OUTCOME_REFUSED (Some ErrLeaseLost))
            \<and> d' = d)
    | WorkerMessage_Heartbeat m \<Rightarrow>
        (if holder_of d (beat_JobId m) = Some w then reply = None \<and> \<not> free \<and> holder_of d' = holder_of d
         else reply = Some (ServerMessage_Lost \<lparr>lost_JobId = beat_JobId m\<rparr>) \<and> free \<and> d' = d)
    | _ \<Rightarrow> reply = None \<and> \<not> free \<and> d' = d"
proof -
  let ?c = "env_call x" and ?e = "q_store q"
  have meet: "meet ?e x d = d" using assms(3) by (simp add: meet_def)
  note other = pg_other [OF assms(1), where c = ?c and w = w, unfolded calm_id [OF assms(2)]]
  note ans = assms(4) [unfolded answer_def Let_def meet]
  show ?thesis
  proof (cases msg)
    case (WorkerMessage_Completed m)
    then show ?thesis
      using ans other(1) Complete_held [OF assms(1) _ assms(2), of "completed_JobId m" w]
      by (cases "holder_of d (completed_JobId m) = Some w") (auto simp: Queue_Complete_def)
  next
    case (WorkerMessage_Failed m)
    then show ?thesis
      using ans other(2) FailJob_held [OF assms(1) _ assms(2), of "failed_JobId m" w ?e
          "failed_ErrorMessage m" "q_retryDelay q"]
      by (cases "holder_of d (failed_JobId m) = Some w") (auto simp: Queue_Fail_def Let_def split: if_splits)
  next
    case (WorkerMessage_Heartbeat m)
    show ?thesis
    proof (cases "holder_of d (beat_JobId m) = Some w")
      case False
      with WorkerMessage_Heartbeat show ?thesis
        using ans other(3) by (simp add: Queue_Heartbeat_def)
    next
      case True
      have "snd (HeartbeatJob ?e ?c (beat_JobId m) w (q_leaseFor q) d) \<noteq> Inr False"
        by (rule HeartbeatJob_held [OF assms(1) True assms(2)])
      moreover have "holder_of (fst (HeartbeatJob ?e ?c (beat_JobId m) w (q_leaseFor q) d)) = holder_of d"
        using pg_beat [OF assms(1), of ?e ?c "beat_JobId m" w "q_leaseFor q"] calm_id [OF assms(2)] by simp
      ultimately show ?thesis
        using True WorkerMessage_Heartbeat ans
        by (auto simp: Queue_Heartbeat_def split: sum.splits prod.splits if_splits)
    qed
  qed (use ans in simp_all)
qed

theorem answer_tells_truth_witness:
  "fst (snd (answer queue1 (env_at 5000) ''w1'' (WorkerMessage_Completed \<lparr>completed_JobId = ''j1''\<rparr>) db1))
     = Some (result_msg seq_engine ''j1'' OUTCOME_ACCEPTED None)
   \<and> fst (snd (answer queue1 (env_at 5000) ''w2'' (WorkerMessage_Completed \<lparr>completed_JobId = ''j1''\<rparr>) db1))
     = Some (result_msg seq_engine ''j1'' OUTCOME_REFUSED (Some ErrLeaseLost))"
proof -
  let ?m = "WorkerMessage_Completed \<lparr>completed_JobId = ''j1''\<rparr>"
  have env: "flt (env_call (env_at 5000)) = NoFault" "env_before (env_at 5000) = []"
    by (simp_all add: env_at_def)
  have held: "holder_of db1 ''j1'' = Some ''w1''" "q_store queue1 = seq_engine"
    by (simp_all add: holder_of_def queue1_def)
  obtain d1 r1 f1 l1 where a1: "answer queue1 (env_at 5000) ''w1'' ?m db1 = (d1, r1, f1, l1)"
    by (metis prod_cases4)
  obtain d2 r2 f2 l2 where a2: "answer queue1 (env_at 5000) ''w2'' ?m db1 = (d2, r2, f2, l2)"
    by (metis prod_cases4)
  from answer_tells_truth [OF db1_ok env a1] answer_tells_truth [OF db1_ok env a2] show ?thesis
    by (simp add: a1 a2 held)
qed

section \<open>Enqueue\<close>

lemma CreateJob_calm:
  "flt c = NoFault \<Longrightarrow> CreateJob c j d =
     (if job_of d (job_Id j) \<noteq> None then (d, Some (Wrap ''create job'' (PgError UniqueViolation)))
      else (d\<lparr>jobs := jobs d @ [new_row (now c) j]\<rparr>, None))"
  by (simp add: CreateJob_def exec_ok stmt_state_def stmt_result_def sql_insert_job_def)

lemma new_row_sel:
  "jr_type (new_row t j) = job_Type j" "jr_payload (new_row t j) = job_Payload j"
  "jr_max_retries (new_row t j) = (if job_MaxRetries j = 0 then 3 else sint (job_MaxRetries j))"
  by (simp_all add: new_row_def)

text \<open>No operation loses a job or changes what it is.\<close>

lemma reaches_keeps_job:
  assumes "engine_ok e" and "distinct (map jr_id (jobs d))" and "reaches e P d d'"
    and "job_of d i = Some r"
  shows "\<exists>r'. job_of d' i = Some r' \<and> jr_type r' = jr_type r \<and> jr_payload r' = jr_payload r
    \<and> jr_max_retries r' = jr_max_retries r"
proof -
  let ?core = "map_option (\<lambda>r. (jr_type r, jr_payload r, jr_max_retries r))"
  let ?Q = "\<lambda>ro ro'. \<forall>v. ?core ro = Some v \<longrightarrow> ?core ro' = Some v"
  from assms(3) obtain xs where xs: "d' = run_ops e xs d" unfolding reaches_def by blast
  have "?Q (job_of d i) (job_of (run_ops e xs d) i)"
  proof (rule run_ops_row [OF assms(1,2), where G = "\<lambda>_. True"])
    show "?Q ro ro'" if "row_step e t ev ro ro'" for t ev ro ro'
      using that by (cases rule: row_step.cases)
        (auto simp: claim_row_def finish_row_def beat_row_def reap_row_def elim!: fail_row_Inr
           split: sum.splits)
  qed simp_all
  with assms(4) xs show ?thesis by auto
qed

text \<open>
  C30: \<open>Enqueue\<close> answers truthfully: with the database answering and the line in order, a request
  without a job and a job whose id exists are refused with an error and change nothing; any
  other job is answered with its id (a fresh one if it had none) and no error, and whatever
  the push that follows does, the job is then in the database with its type, its payload and
  its retry budget (3 if it asked for none).
\<close>

theorem Enqueue_answers:
  assumes "engine_ok (q_store q)" and "distinct (map jr_id (jobs (hb_db hb)))" and "hub_ok hb"
    and "flt (env_call x) = NoFault" and "env_before x = []"
    and "Enqueue q uuid x stop env req hb = (hb', hung, resp)"
  shows "case EnqueueRequest_GetJob req of
      None \<Rightarrow> hb' = hb \<and> resp = Some \<lparr>resp_JobId = '''', resp_Error = ''missing job data''\<rparr>
    | Some j \<Rightarrow> let i = (if job_Id j = '''' then uuid else job_Id j) in
        if job_of (hb_db hb) i \<noteq> None
        then hb' = hb \<and> resp = Some \<lparr>resp_JobId = '''', resp_Error =
               ''persist job: create job: '' @ sql_msg (q_store q) UniqueViolation\<rparr>
        else resp = Some \<lparr>resp_JobId = i, resp_Error = ''''\<rparr>
          \<and> (\<exists>r. job_of (hb_db hb') i = Some r \<and> jr_type r = job_Type j \<and> jr_payload r = job_Payload j
               \<and> jr_max_retries r = (if job_MaxRetries j = 0 then 3 else sint (job_MaxRetries j)))"
proof (cases "EnqueueRequest_GetJob req")
  case None
  with assms(6) show ?thesis by (simp add: Enqueue_def)
next
  case (Some j)
  let ?d = "hb_db hb" and ?job = "if job_Id j = '''' then j\<lparr>job_Id := uuid\<rparr> else j"
  define i where "i = (if job_Id j = '''' then uuid else job_Id j)"
  have id: "job_Id ?job = i" by (simp add: i_def)
  have fields: "job_Type ?job = job_Type j" "job_Payload ?job = job_Payload j"
      "job_MaxRetries ?job = job_MaxRetries j"
    by simp_all
  have meet: "meet (q_store q) x ?d = ?d" using assms(5) by (simp add: meet_def)
  show ?thesis
  proof (cases "job_of ?d i")
    case (Some r)
    with \<open>EnqueueRequest_GetJob req = Some j\<close> assms(6) show ?thesis
      by (simp add: Enqueue_def meet Queue_Enqueue_def CreateJob_calm [OF assms(4)] id Let_def
          flip: i_def)
  next
    case None
    let ?d1 = "?d\<lparr>jobs := jobs ?d @ [new_row (now (env_call x)) ?job]\<rparr>"
    let ?hb1 = "hb\<lparr>hb_db := ?d1\<rparr>"
    have row: "job_of ?d1 i = Some (new_row (now (env_call x)) ?job)"
      using None by (simp add: row_of_append new_row_def id)
    have ids: "distinct (map jr_id (jobs ?d1))"
      using assms(2) None by (simp add: row_of_None_iff new_row_def id image_iff)
    have ok: "hub_ok ?hb1" using assms(3) by simp
    obtain hb2 h where "Push q stop env ?hb1 = (hb2, h)" by fastforce
    with Push_ok [OF ok, of q stop env] have push: "Push q stop env ?hb1 = (hb2, None)" by simp
    have "reaches (q_store q) (\<lambda>_. True) ?d1 (hb_db hb2)"
      using pushLocked_reaches [of "\<lambda>_. True" env ?hb1 q] push
      by (cases stop) (auto simp: Push_def calls_in_def list_all_iff)
    from reaches_keeps_job [OF assms(1) ids this row]
    obtain r where "job_of (hb_db hb2) i = Some r" "jr_type r = job_Type ?job"
        "jr_payload r = job_Payload ?job"
        "jr_max_retries r = (if job_MaxRetries ?job = 0 then 3 else sint (job_MaxRetries ?job))"
      unfolding new_row_sel by blast
    then have "\<exists>r. job_of (hb_db hb2) i = Some r \<and> jr_type r = job_Type j \<and> jr_payload r = job_Payload j
        \<and> jr_max_retries r = (if job_MaxRetries j = 0 then 3 else sint (job_MaxRetries j))"
      unfolding fields by blast
    moreover have "hb' = hb2" "resp = Some \<lparr>resp_JobId = i, resp_Error = ''''\<rparr>"
      using assms(6) \<open>EnqueueRequest_GetJob req = Some j\<close> None push
      by (simp_all add: Enqueue_def meet Queue_Enqueue_def CreateJob_calm [OF assms(4)] id Let_def)
    ultimately show ?thesis
      using \<open>EnqueueRequest_GetJob req = Some j\<close> None by (simp add: Let_def flip: i_def)
  qed
qed

theorem Enqueue_answers_witness:
  "snd (snd (Enqueue queue1 ''u-1'' (env_at 5000) False (push_at 5000)
     (Some \<lparr>req_Job = Some new_job\<rparr>) hub1)) = Some \<lparr>resp_JobId = ''j3'', resp_Error = ''''\<rparr>"
proof -
  have env: "flt (env_call (env_at 5000)) = NoFault" "env_before (env_at 5000) = []"
    by (simp_all add: env_at_def)
  have hub: "engine_ok (q_store queue1)" "distinct (map jr_id (jobs (hb_db hub1)))"
      "job_of (hb_db hub1) ''j3'' = None"
    by (simp_all add: queue1_def hub1_def jobs_db1)
  obtain hb' hung resp where enq: "Enqueue queue1 ''u-1'' (env_at 5000) False (push_at 5000)
     (Some \<lparr>req_Job = Some new_job\<rparr>) hub1 = (hb', hung, resp)" by (metis prod_cases3)
  from Enqueue_answers [OF hub(1,2) hub1_ok env enq] hub(3)
  have "resp = Some \<lparr>resp_JobId = ''j3'', resp_Error = ''''\<rparr>"
    by (simp add: EnqueueRequest_GetJob_def new_job_def Let_def)
  with enq show ?thesis by simp
qed

section \<open>A heartbeat that comes too late\<close>

text \<open>
  C37: A heartbeat for a job its worker no longer holds, such as one that follows the worker's
  report, stops the server when the worker's next assignment is still on its channel: the
  server answers that the job is lost, takes the worker for free and puts it in line a second
  time, and if it leads, nobody else waits and a job is visible, the dispatcher claims that job
  and hangs in the send to the full channel, in the goroutine that would empty it.
\<close>

theorem late_beat_hangs:
  assumes "engine_ok (q_store q)" and "db_ok (hb_db hb)"
    and "flt (env_call (tn_db env)) = NoFault" and "env_before (tn_db env) = []"
    and "tn_send_err env = None" and "quiet q (pu_db (tn_push env))"
    and "Leading (pu_leading (tn_push env))" and "ds_waiters (hb_dis hb) = []"
    and "hb_chans hb (wt_deliveries (sm_waiter s)) \<noteq> []"
    and "holder_of (hb_db hb) j \<noteq> Some (wt_workerID (sm_waiter s))"
    and "r \<in> set (jobs (hb_db hb))" and "visible (env_call (pu_db (tn_push env) 0)) r"
  shows "\<exists>hb' job. stream_turn q env (GotMessage (WorkerMessage_Heartbeat \<lparr>beat_JobId = j\<rparr>)) s hb =
      Hangs hb' (wt_deliveries (sm_waiter s), assignment q job)
    \<and> holds_lease (hb_db hb') (job_Id job) (wt_workerID (sm_waiter s))"
proof -
  let ?w = "sm_waiter s" and ?x = "tn_db env"
  have "HeartbeatJob (q_store q) (env_call ?x) j (wt_workerID ?w) (q_leaseFor q) (hb_db hb) = (hb_db hb, Inr False)"
    using pg_other(3) [OF assms(2,10), where c = "env_call ?x", unfolded calm_id [OF assms(3)]] by simp
  then have answered: "\<exists>log. answer q ?x (wt_workerID ?w) (WorkerMessage_Heartbeat \<lparr>beat_JobId = j\<rparr>) (hb_db hb) =
      (hb_db hb, Some (ServerMessage_Lost \<lparr>lost_JobId = j\<rparr>), True, log)"
    using assms(4) by (simp add: answer_def meet_def Queue_Heartbeat_def)
  from registering_twice_blocks [OF assms(1,2,6,7,8,9,11,12)] obtain job where
    job: "snd (register q (tn_push env) ?w hb) = Some (wt_deliveries ?w, assignment q job)"
      "holds_lease (hb_db (fst (register q (tn_push env) ?w hb))) (job_Id job) (wt_workerID ?w)" by blast
  then obtain hb' where reg: "register q (tn_push env) ?w hb = (hb', Some (wt_deliveries ?w, assignment q job))"
    by (metis prod.collapse)
  have "register_then q (tn_push env) True hb (s\<lparr>sm_sent := m\<rparr>) =
      Hangs hb' (wt_deliveries ?w, assignment q job)" for m
    by (simp add: register_then_def reg)
  with answered job(2) assms(5) reg show ?thesis
    by (auto simp: stream_turn_def send_then_def Let_def)
qed

definition turn_at :: "ts \<Rightarrow> turn_env" where
  "turn_at t = \<lparr>tn_db = \<lparr>env_before = [], env_call = call_at t\<rparr>, tn_send_err = None,
     tn_push = push_at t, tn_lead = leader1, tn_ctxs = \<lparr>ctx_made = 2, ctx_cancelled = [0]\<rparr>\<rparr>"

theorem late_beat_hangs_witness:
  "\<exists>hb' a. stream_turn queue1 (turn_at 5000) (GotMessage (WorkerMessage_Heartbeat \<lparr>beat_JobId = ''j9''\<rparr>))
     \<lparr>sm_waiter = \<lparr>wt_workerID = ''w1'', wt_deliveries = 0\<rparr>, sm_sent = []\<rparr>
     \<lparr>hb_dis = newDispatcher, hb_chans = (\<lambda>_. [])(0 := [assignment queue1 (job_of_row job1)]),
      hb_db = db1\<rparr> = Hangs hb' (0, a)"
proof -
  let ?hb = "\<lparr>hb_dis = newDispatcher, hb_chans = (\<lambda>_. [])(0 := [assignment queue1 (job_of_row job1)]),
      hb_db = db1\<rparr>" and ?s = "\<lparr>sm_waiter = \<lparr>wt_workerID = ''w1'', wt_deliveries = 0\<rparr>, sm_sent = []\<rparr>"
  have quiet: "quiet queue1 (pu_db (tn_push (turn_at 5000)))"
    by (simp add: quiet_def turn_at_def queue1_def DefaultLeaseFor_def ts_in_range_def fits64_def second_def
        make_interval_def)
  have gone: "holder_of db1 ''j9'' = None" by (simp add: holder_of_def sample_defs)
  have "\<exists>hb' job. stream_turn queue1 (turn_at 5000) (GotMessage (WorkerMessage_Heartbeat \<lparr>beat_JobId = ''j9''\<rparr>)) ?s ?hb =
      Hangs hb' (wt_deliveries (sm_waiter ?s), assignment queue1 job)
    \<and> holds_lease (hb_db hb') (job_Id job) (wt_workerID (sm_waiter ?s))"
    by (rule late_beat_hangs [OF _ _ _ _ _ quiet, of _ _ _ job2])
       (simp_all add: turn_at_def queue1_def newDispatcher_def visible_def jobs_db1 gone)
  then show ?thesis by auto
qed

end
