(* ===== verification/Server_Node.thy ===== *)
theory Server_Node
  imports Stream_Guarantees
begin

text \<open>
  One server process as a whole: \<open>Server\<close> of \<open>server.go\<close> with its dispatcher, its leadership and its
  worker streams, and the steps its goroutines take, in any order and with any operations of
  other nodes in between. The invariant says that the line of waiting workers only names live
  streams, and that the database stays well formed; a run of the server is a run of the store.
\<close>

section \<open>The server and its steps\<close>

text \<open>
  Beside the parts of the Go struct: the contexts of the leadership, a cancellation that
  \<open>demote\<close> has taken out of the struct and not yet called, the admitted streams, the number of
  channels made, and the send a pass hangs in. A hung pass keeps the dispatcher's mutex; the
  model does not go on from there.
\<close>

record server =
  sv_hub :: hub
  sv_lead :: Leadership
  sv_ctxs :: ctxs
  sv_cancel :: "nat option"
  sv_streams :: "stream list"
  sv_chans :: nat
  sv_stop :: bool
  sv_hung :: "(nat \<times> Assigned) option"

definition Server_New :: "dur \<Rightarrow> db \<Rightarrow> server" where
  "Server_New reapEvery d =
     (case newLeadership reapEvery \<lparr>ctx_made = 0, ctx_cancelled = []\<rparr> of (l, h) \<Rightarrow>
       \<lparr>sv_hub = \<lparr>hb_dis = newDispatcher, hb_chans = (\<lambda>_. []), hb_db = d\<rparr>,
        sv_lead = l, sv_ctxs = h, sv_cancel = None, sv_streams = [], sv_chans = 0,
        sv_stop = False, sv_hung = None\<rparr>)"

text \<open>
  What the environment may do: the operations of other nodes before a call are in \<open>P\<close>, and a
  term that a pass reads was won, so it is not negative.
\<close>

definition push_env_ok :: "(store_op \<Rightarrow> bool) \<Rightarrow> push_env \<Rightarrow> bool" where
  "push_env_ok P env \<longleftrightarrow> (\<forall>k. calls_in P (pu_db env k)) \<and> 0 \<le> Term (pu_term env)"

text \<open>What the worker of a stream asks for, if a turn receives anything, is in \<open>P\<close> as well.\<close>

definition heard :: "(store_op \<Rightarrow> bool) \<Rightarrow> Queue \<Rightarrow> stream \<Rightarrow> select_case \<Rightarrow> bool" where
  "heard P q st sel \<longleftrightarrow> (case sel of
      GotMessage msg \<Rightarrow> (case message_op q (wt_workerID (sm_waiter st)) msg of None \<Rightarrow> True | Some op \<Rightarrow> P op)
    | _ \<Rightarrow> True)"

definition drop_nth :: "nat \<Rightarrow> 'a list \<Rightarrow> 'a list" where
  "drop_nth i xs = take i xs @ drop (Suc i) xs"

text \<open>What the goroutines that serve workers and clients do.\<close>

inductive serving_step :: "(store_op \<Rightarrow> bool) \<Rightarrow> Queue \<Rightarrow> server \<Rightarrow> server \<Rightarrow> bool"
  for P :: "store_op \<Rightarrow> bool" and q :: Queue where
  connect: "sv_hung s = None \<Longrightarrow> admit (Inr msg) (sv_lead s) = Inr workerID \<Longrightarrow> push_env_ok P env \<Longrightarrow>
    w = \<lparr>wt_workerID = workerID, wt_deliveries = sv_chans s\<rparr> \<Longrightarrow>
    register q env w (sv_hub s) = (hb, hung) \<Longrightarrow>
    serving_step P q s (s\<lparr>sv_hub := hb, sv_streams := sv_streams s @ [\<lparr>sm_waiter = w, sm_sent = []\<rparr>],
      sv_chans := Suc (sv_chans s), sv_hung := hung\<rparr>)"
| turn: "sv_hung s = None \<Longrightarrow> i < length (sv_streams s) \<Longrightarrow> push_env_ok P (tn_push env) \<Longrightarrow>
    calls_in P (tn_db env) \<Longrightarrow> heard P q (sv_streams s ! i) sel \<Longrightarrow>
    stream_turn q env sel (sv_streams s ! i) (sv_hub s) = Goes st hb \<Longrightarrow>
    serving_step P q s (s\<lparr>sv_hub := hb, sv_streams := (sv_streams s)[i := st]\<rparr>)"
| turn_ends: "sv_hung s = None \<Longrightarrow> i < length (sv_streams s) \<Longrightarrow>
    calls_in P (tn_db env) \<Longrightarrow> heard P q (sv_streams s ! i) sel \<Longrightarrow>
    stream_turn q env sel (sv_streams s ! i) (sv_hub s) = Ends x hb \<Longrightarrow>
    serving_step P q s (s\<lparr>sv_hub := hb, sv_streams := drop_nth i (sv_streams s)\<rparr>)"
| turn_hangs: "sv_hung s = None \<Longrightarrow> i < length (sv_streams s) \<Longrightarrow> push_env_ok P (tn_push env) \<Longrightarrow>
    calls_in P (tn_db env) \<Longrightarrow> heard P q (sv_streams s ! i) sel \<Longrightarrow>
    stream_turn q env sel (sv_streams s ! i) (sv_hub s) = Hangs hb hung \<Longrightarrow>
    serving_step P q s (s\<lparr>sv_hub := hb, sv_hung := Some hung\<rparr>)"
| enqueue: "sv_hung s = None \<Longrightarrow> push_env_ok P env \<Longrightarrow> calls_in P x \<Longrightarrow>
    (\<forall>j. EnqueueRequest_GetJob req = Some j \<longrightarrow> job_Status j \<in> {'''', ''pending''}) \<Longrightarrow>
    Enqueue q uuid x (sv_stop s) env req (sv_hub s) = (hb, hung, resp) \<Longrightarrow>
    serving_step P q s (s\<lparr>sv_hub := hb, sv_hung := hung\<rparr>)"
| timer: "sv_hung s = None \<Longrightarrow> ds_timer (hb_dis (sv_hub s)) = Armed wait \<Longrightarrow> push_env_ok P env \<Longrightarrow>
    timer_fires q (sv_stop s) env (sv_hub s) = (hb, hung) \<Longrightarrow>
    serving_step P q s (s\<lparr>sv_hub := hb, sv_hung := hung\<rparr>)"

text \<open>The whole process: serving, the leadership loop, the reaper, the signal, and other nodes.\<close>

inductive server_step :: "Queue \<Rightarrow> server \<Rightarrow> server \<Rightarrow> bool" for q :: Queue where
  serve: "serving_step op_ok q s s' \<Longrightarrow> server_step q s s'"
| win: "\<not> Leading (sv_lead s) \<Longrightarrow> sv_cancel s = None \<Longrightarrow> becomeLead tm (sv_lead s, sv_ctxs s) = (l, h) \<Longrightarrow>
    server_step q s (s\<lparr>sv_lead := l, sv_ctxs := h\<rparr>)"
| lose: "sv_cancel s = None \<Longrightarrow> demote_locked (sv_lead s) = (l, cancel) \<Longrightarrow>
    server_step q s (s\<lparr>sv_lead := l, sv_cancel := cancel\<rparr>)"
| cancel: "sv_cancel s = Some c \<Longrightarrow>
    server_step q s (s\<lparr>sv_ctxs := cancel_ctx c (sv_ctxs s), sv_cancel := None\<rparr>)"
| sweep: "Queue_ReapExpiredLeases q c tm (hb_db (sv_hub s)) = (d, res) \<Longrightarrow>
    server_step q s (s\<lparr>sv_hub := (sv_hub s)\<lparr>hb_db := d\<rparr>\<rparr>)"
| others: "\<forall>x \<in> set xs. op_ok (snd x) \<Longrightarrow>
    server_step q s (s\<lparr>sv_hub := (sv_hub s)\<lparr>hb_db := run_ops (q_store q) xs (hb_db (sv_hub s))\<rparr>\<rparr>)"
| stop: "server_step q s (s\<lparr>sv_stop := True\<rparr>)"

section \<open>The invariant\<close>

abbreviation stream_waiters :: "server \<Rightarrow> waiter list" where
  "stream_waiters s \<equiv> map sm_waiter (sv_streams s)"

definition line_live :: "server \<Rightarrow> bool" where
  "line_live s \<longleftrightarrow> distinct (map wt_workerID (ds_waiters (hb_dis (sv_hub s))))
     \<and> set (ds_waiters (hb_dis (sv_hub s))) \<subseteq> set (stream_waiters s)"

definition streams_ok :: "server \<Rightarrow> bool" where
  "streams_ok s \<longleftrightarrow> distinct (map wt_deliveries (stream_waiters s))
     \<and> list_all (\<lambda>w. wt_workerID w \<noteq> '''' \<and> wt_deliveries w < sv_chans s) (stream_waiters s)"

definition reign_live :: "server \<Rightarrow> bool" where
  "reign_live s \<longleftrightarrow> (let l = sv_lead s; h = sv_ctxs s in
     LeadCtx l < ctx_made h \<and> list_all (\<lambda>c. c < ctx_made h) (ctx_cancelled h)
   \<and> (if Leading l then ld_cancel l = Some (LeadCtx l) \<and> sv_cancel s = None \<and> \<not> ctx_done h (LeadCtx l)
      else ld_cancel l = None \<and> (sv_cancel s = None \<and> ctx_done h (LeadCtx l) \<or> sv_cancel s = Some (LeadCtx l))))"

definition server_ok :: "server \<Rightarrow> bool" where
  "server_ok s \<longleftrightarrow> db_ok (hb_db (sv_hub s)) \<and> line_live s \<and> streams_ok s \<and> reign_live s"

lemma Server_New_ok: "db_ok d \<Longrightarrow> server_ok (Server_New n d)"
  by (simp add: server_ok_def Server_New_def line_live_def streams_ok_def reign_live_def
      newDispatcher_def leadership_defs)

section \<open>What a step does to the line and to the database\<close>

lemma push_loop_drops: "\<exists>n. fst (snd (snd (push_loop q tm env k ws ch d))) = drop n ws"
proof (induction ws arbitrary: k ch d)
  case (Cons w ws)
  obtain d1 res where dq: "Queue_Dequeue q (env_call (env k)) tm (wt_workerID w)
      (meet (q_store q) (env k) d) = (d1, res)" by fastforce
  from Cons.IH have "\<exists>n. fst (snd (snd (push_loop q tm env (Suc k) ws ch' d1))) = drop n (w # ws)" for ch'
    by (metis drop_Suc_Cons)
  moreover have "\<exists>n. ws = drop n (w # ws)" by (rule exI [of _ 1]) simp
  moreover have "\<exists>n. w # ws = drop n (w # ws)" by (rule exI [of _ 0]) simp
  ultimately show ?case
    by (simp add: dq split: sum.split option.split)
qed simp

text \<open>A line made from \<open>ws\<close> and perhaps \<open>w\<close> by serving workers, in which nobody stands twice.\<close>

definition line_after :: "waiter list \<Rightarrow> waiter \<Rightarrow> waiter list \<Rightarrow> bool" where
  "line_after ws w ws' \<longleftrightarrow> set ws' \<subseteq> insert w (set ws)
     \<and> (distinct (map wt_workerID ws) \<longrightarrow> distinct (map wt_workerID ws'))"

lemma line_after_refl [simp]: "line_after ws w ws"
  by (auto simp: line_after_def)

lemma distinct_drop_map: "distinct (map f xs) \<Longrightarrow> distinct (map f (drop n xs))"
  by (simp flip: drop_map)

lemma pushLocked_line:
  "\<exists>n. ds_waiters (hb_dis (fst (pushLocked q env hb))) = drop n (ds_waiters (hb_dis hb))"
proof (cases "Leading (pu_leading env)")
  case True
  obtain r k ws ch d where loop: "push_loop q (Term (pu_term env)) (pu_db env) 0
      (ds_waiters (hb_dis hb)) (hb_chans hb) (hb_db hb) = (r, k, ws, ch, d)"
    by (metis prod_cases5)
  with push_loop_drops [of q "Term (pu_term env)" "pu_db env" 0 "ds_waiters (hb_dis hb)" "hb_chans hb" "hb_db hb"]
    pushLocked_leading(1) [OF True loop] show ?thesis by simp
qed (auto simp: pushLocked_def intro: exI [of _ 0])

lemma line_after_drop: "line_after ws w (drop n ws)"
  by (auto simp: line_after_def distinct_drop_map dest: in_set_dropD)

lemma Push_line: "line_after (ds_waiters (hb_dis hb)) w (ds_waiters (hb_dis (fst (Push q b env hb))))"
  using pushLocked_line [of q env hb] by (auto simp: Push_def line_after_drop)

lemma register_line:
  "line_after (ds_waiters (hb_dis hb)) w (ds_waiters (hb_dis (fst (register q env w hb))))"
proof (cases "\<exists>x \<in> set (ds_waiters (hb_dis hb)). wt_workerID x = wt_workerID w")
  case False
  let ?ws = "ds_waiters (hb_dis hb) @ [w]"
  from pushLocked_line [of q env "hb\<lparr>hb_dis := (hb_dis hb)\<lparr>ds_waiters := ?ws\<rparr>\<rparr>"] False
  obtain n where n: "ds_waiters (hb_dis (fst (register q env w hb))) = drop n ?ws"
    by (auto simp: register_def)
  have "set (drop n ?ws) \<subseteq> set ?ws" by (rule set_drop_subset)
  moreover have "distinct (map wt_workerID ?ws)" if "distinct (map wt_workerID (ds_waiters (hb_dis hb)))"
    using that False by auto
  ultimately show ?thesis
    unfolding line_after_def n using distinct_drop_map [of wt_workerID ?ws n] by auto
qed (simp add: register_def)

section \<open>The operations a server makes\<close>

text \<open>
  What a server does for its workers and clients is a sequence of operations on jobs, whatever
  set \<open>P\<close> of operations the other nodes and the reports of the workers keep to, as long as it has
  those a server makes on its own.
\<close>

fun report_op :: "store_op \<Rightarrow> bool" where
  "report_op (OpComplete i w) \<longleftrightarrow> True"
| "report_op (OpFail i w m b) \<longleftrightarrow> True"
| "report_op (OpHeartbeat i w lease) \<longleftrightarrow> True"
| "report_op _ \<longleftrightarrow> False"

lemma message_op_kind: "message_op q w msg = Some op \<Longrightarrow> op_ok op \<and> \<not> leader_op op"
  by (cases msg) auto

locale served_ops =
  fixes P :: "store_op \<Rightarrow> bool"
  assumes own: "op_ok op \<Longrightarrow> \<not> leader_op op \<Longrightarrow> \<not> report_op op \<Longrightarrow> P op"
begin

text \<open>The operations a pass makes for workers with names.\<close>

lemma register_reaches_ok:
  assumes "push_env_ok P env" and "\<forall>x \<in> insert w (set (ds_waiters (hb_dis hb))). wt_workerID x \<noteq> ''''"
  shows "reaches (q_store q) P (hb_db hb) (hb_db (fst (register q env w hb)))"
  using assms by (intro register_reaches) (auto simp: push_env_ok_def intro!: own)

lemma Push_reaches_ok:
  assumes "push_env_ok P env" and "\<forall>x \<in> set (ds_waiters (hb_dis hb)). wt_workerID x \<noteq> ''''"
  shows "reaches (q_store q) P (hb_db hb) (hb_db (fst (Push q b env hb)))"
proof -
  have "reaches (q_store q) P (hb_db hb) (hb_db (fst (pushLocked q env hb)))"
    using assms by (intro pushLocked_reaches) (auto simp: push_env_ok_def intro!: own)
  then show ?thesis by (simp add: Push_def)
qed

lemma answer_reaches_ok:
  "calls_in P x \<Longrightarrow> heard P q st (GotMessage msg) \<Longrightarrow>
     reaches (q_store q) P d (fst (answer q x (wt_workerID (sm_waiter st)) msg d))"
  by (rule answer_reaches) (auto simp: heard_def)

text \<open>A turn of a stream.\<close>

lemma register_then_cases:
  assumes "push_env_ok P env" and "\<forall>x \<in> insert (sm_waiter s) (set (ds_waiters (hb_dis hb))). wt_workerID x \<noteq> ''''"
    and "register_then q env free hb s = t"
  shows "case t of
      Goes s' hb' \<Rightarrow> s' = s \<and> line_after (ds_waiters (hb_dis hb)) (sm_waiter s) (ds_waiters (hb_dis hb'))
        \<and> reaches (q_store q) P (hb_db hb) (hb_db hb')
    | Hangs hb' hung \<Rightarrow> line_after (ds_waiters (hb_dis hb)) (sm_waiter s) (ds_waiters (hb_dis hb'))
        \<and> reaches (q_store q) P (hb_db hb) (hb_db hb')
    | _ \<Rightarrow> False"
proof -
  obtain hb1 h where reg: "register q env (sm_waiter s) hb = (hb1, h)" by fastforce
  with register_line [of hb "sm_waiter s" q env] register_reaches_ok [OF assms(1,2), of q] assms(3)
  show ?thesis by (auto simp: register_then_def split: option.splits if_splits)
qed

text \<open>
  However a turn goes: the stream keeps its waiter, the line changes only by serving workers
  and by the stream's own registration, a stream that ends has no place in line, and what
  happens to the database is a sequence of store operations.
\<close>

lemma stream_turn_cases:
  assumes "push_env_ok P (tn_push env) \<or> (\<exists>x hb. stream_turn q env sel s hb0 = Ends x hb)"
    and "calls_in P (tn_db env)"
    and "\<forall>x \<in> insert (sm_waiter s) (set (ds_waiters (hb_dis hb0))). wt_workerID x \<noteq> ''''"
    and "heard P q s sel"
  shows "case stream_turn q env sel s hb0 of
      NotReady \<Rightarrow> True
    | Goes s' hb \<Rightarrow> sm_waiter s' = sm_waiter s
        \<and> line_after (ds_waiters (hb_dis hb0)) (sm_waiter s) (ds_waiters (hb_dis hb))
        \<and> reaches (q_store q) P (hb_db hb0) (hb_db hb)
    | Ends x hb \<Rightarrow>
        ds_waiters (hb_dis hb) = drop_waiter (wt_workerID (sm_waiter s)) (ds_waiters (hb_dis hb0))
        \<and> reaches (q_store q) P (hb_db hb0) (hb_db hb)
    | Hangs hb hung \<Rightarrow> line_after (ds_waiters (hb_dis hb0)) (sm_waiter s) (ds_waiters (hb_dis hb))
        \<and> reaches (q_store q) P (hb_db hb0) (hb_db hb)"
proof (cases sel)
  case (GotMessage msg)
  obtain d reply free log where
    ans: "answer q (tn_db env) (wt_workerID (sm_waiter s)) msg (hb_db hb0) = (d, reply, free, log)"
    by (metis prod_cases4)
  let ?hb = "hb0\<lparr>hb_db := d\<rparr>"
  have d: "reaches (q_store q) P (hb_db hb0) d"
    using answer_reaches_ok [OF assms(2) assms(4) [unfolded GotMessage], of "hb_db hb0"] ans by simp
  have step: "case register_then q (tn_push env) free ?hb s' of
      Goes s'' hb' \<Rightarrow> s'' = s' \<and> line_after (ds_waiters (hb_dis hb0)) (sm_waiter s) (ds_waiters (hb_dis hb'))
        \<and> reaches (q_store q) P (hb_db hb0) (hb_db hb')
    | Hangs hb' hung \<Rightarrow> line_after (ds_waiters (hb_dis hb0)) (sm_waiter s) (ds_waiters (hb_dis hb'))
        \<and> reaches (q_store q) P (hb_db hb0) (hb_db hb')
    | _ \<Rightarrow> False" if "push_env_ok P (tn_push env)" "sm_waiter s' = sm_waiter s" for s'
    using register_then_cases [OF that(1) _ refl, of s' ?hb q free] that(2) assms(3) d
    by (auto split: turn.splits intro: reaches_trans)
  have no_end: "register_then q (tn_push env) free ?hb s' \<noteq> Ends x hb" for s' x hb
    by (auto simp: register_then_def split: option.split prod.split)
  define s1 where "s1 = (case reply of None \<Rightarrow> s | Some m \<Rightarrow> s\<lparr>sm_sent := sm_sent s @ [m]\<rparr>)"
  show ?thesis
  proof (cases "reply \<noteq> None \<and> tn_send_err env \<noteq> None")
    case True
    with GotMessage ans d show ?thesis
      by (auto simp: stream_turn_def send_then_def forget_def Let_def)
  next
    case False
    with GotMessage ans have t: "stream_turn q env sel s hb0 = register_then q (tn_push env) free ?hb s1"
      by (auto simp: stream_turn_def send_then_def Let_def s1_def split: option.split)
    with assms(1) no_end have "push_env_ok P (tn_push env)" by auto
    moreover have "sm_waiter s1 = sm_waiter s" by (simp add: s1_def split: option.split)
    ultimately show ?thesis using step [of s1] unfolding t by (auto split: turn.splits)
  qed
qed (auto simp: stream_turn_def send_then_def forget_def Let_def split: list.split option.split)

end

section \<open>Every step keeps the invariant\<close>

lemma line_named:
  assumes "line_live s" and "streams_ok s"
  shows "\<forall>x \<in> set (ds_waiters (hb_dis (sv_hub s))). wt_workerID x \<noteq> ''''"
  using assms by (auto simp: line_live_def streams_ok_def list_all_iff)

lemma stream_named:
  assumes "line_live s" and "streams_ok s" and "i < length (sv_streams s)"
  shows "\<forall>x \<in> insert (sm_waiter (sv_streams s ! i)) (set (ds_waiters (hb_dis (sv_hub s)))). wt_workerID x \<noteq> ''''"
  using line_named [OF assms(1,2)] assms(2,3) by (auto simp: streams_ok_def list_all_iff)

lemma line_live_after:
  assumes "line_live s" and "line_after (ds_waiters (hb_dis (sv_hub s))) w ws'"
    and "insert w (set (stream_waiters s)) \<subseteq> W"
  shows "distinct (map wt_workerID ws') \<and> set ws' \<subseteq> W"
  using assms unfolding line_live_def line_after_def by blast

text \<open>A pass without a registration, which adds nobody.\<close>

lemma line_live_same:
  assumes "line_live s" and "\<And>w. line_after (ds_waiters (hb_dis (sv_hub s))) w ws'"
  shows "distinct (map wt_workerID ws') \<and> set ws' \<subseteq> set (stream_waiters s)"
proof -
  have "set ws' \<subseteq> set (ds_waiters (hb_dis (sv_hub s)))"
  proof
    fix x assume "x \<in> set ws'"
    moreover have "x\<lparr>wt_deliveries := Suc (wt_deliveries x)\<rparr> \<noteq> x" by (cases x) simp
    ultimately show "x \<in> set (ds_waiters (hb_dis (sv_hub s)))"
      using assms(2) [of "x\<lparr>wt_deliveries := Suc (wt_deliveries x)\<rparr>"] by (auto simp: line_after_def)
  qed
  moreover have "distinct (map wt_workerID ws')"
    using assms(1) assms(2) [of undefined] by (auto simp: line_live_def line_after_def)
  ultimately show ?thesis using assms(1) by (auto simp: line_live_def)
qed

lemma sm_waiter_update:
  "i < length xs \<Longrightarrow> sm_waiter y = sm_waiter (xs ! i) \<Longrightarrow>
     map sm_waiter (xs[i := y]) = map sm_waiter xs"
  by (simp add: map_update list_update_same_conv)

lemma drop_nth_covers: "i < length xs \<Longrightarrow> set xs = insert (xs ! i) (set (drop_nth i xs))"
  using id_take_nth_drop [of i xs] unfolding drop_nth_def
  by (metis Un_insert_right list.set(2) set_append)

lemma drop_nth_map: "map f (drop_nth i xs) = drop_nth i (map f xs)"
  by (simp add: drop_nth_def take_map drop_map)

lemma distinct_drop_nth: "distinct xs \<Longrightarrow> distinct (drop_nth i xs)"
proof (cases "i < length xs")
  case True
  assume "distinct xs"
  then have "distinct (take i xs @ xs ! i # drop (Suc i) xs)"
    using id_take_nth_drop [OF True] by metis
  then show ?thesis by (auto simp: drop_nth_def)
qed (simp add: drop_nth_def)

lemma set_drop_nth: "set (drop_nth i xs) \<subseteq> set xs"
  unfolding drop_nth_def by (auto dest: in_set_takeD in_set_dropD)

lemma drop_waiter_subset:
  "distinct (map wt_workerID ws) \<Longrightarrow> x \<in> set (drop_waiter i ws) \<Longrightarrow> x \<in> set ws \<and> wt_workerID x \<noteq> i"
  using drop_waiter_gone drop_waiter_set by blast

lemma distinct_drop_waiter:
  "distinct (map wt_workerID ws) \<Longrightarrow> distinct (map wt_workerID (drop_waiter i ws))"
  by (induction ws) (use drop_waiter_set in \<open>fastforce+\<close>)

context served_ops
begin

lemma Enqueue_reaches:
  assumes "push_env_ok P env" and "calls_in P x"
    and "\<forall>j. EnqueueRequest_GetJob req = Some j \<longrightarrow> job_Status j \<in> {'''', ''pending''}"
    and "\<forall>w \<in> set (ds_waiters (hb_dis hb)). wt_workerID w \<noteq> ''''"
    and "Enqueue q uuid x b env req hb = (hb', hung, resp)"
  shows "reaches (q_store q) P (hb_db hb) (hb_db hb')
    \<and> line_after (ds_waiters (hb_dis hb)) w (ds_waiters (hb_dis hb'))"
proof (cases "EnqueueRequest_GetJob req")
  case (Some j)
  define job where "job = (if job_Id j = '''' then j\<lparr>job_Id := uuid\<rparr> else j)"
  obtain d err where enq: "Queue_Enqueue q (env_call x) job (meet (q_store q) x (hb_db hb)) = (d, err)"
    by fastforce
  then have "d = apply_op (q_store q) (env_call x) (OpCreate job) (meet (q_store q) x (hb_db hb))"
    by (auto simp: Queue_Enqueue_def split: prod.splits option.splits)
  moreover have "P (OpCreate job)" using assms(3) Some by (auto simp: job_def intro!: own)
  ultimately have d: "reaches (q_store q) P (hb_db hb) d"
    using reaches_meet_op [OF assms(2)] by blast
  obtain hb1 h where push: "Push q b env (hb\<lparr>hb_db := d\<rparr>) = (hb1, h)" by fastforce
  have "reaches (q_store q) P d (hb_db hb1)"
      "line_after (ds_waiters (hb_dis hb)) w (ds_waiters (hb_dis hb1))"
    using Push_reaches_ok [OF assms(1), of "hb\<lparr>hb_db := d\<rparr>" q b] assms(4) push
      Push_line [of "hb\<lparr>hb_db := d\<rparr>" w q b env] by simp_all
  with d Some enq push assms(5) show ?thesis
    by (auto simp: Enqueue_def job_def [symmetric] Let_def intro: reaches_trans split: option.splits)
qed (use assms(5) in \<open>simp add: Enqueue_def\<close>)

lemma timer_reaches:
  assumes "push_env_ok P env" and "\<forall>w \<in> set (ds_waiters (hb_dis hb)). wt_workerID w \<noteq> ''''"
    and "timer_fires q b env hb = (hb', hung)"
  shows "reaches (q_store q) P (hb_db hb) (hb_db hb')
    \<and> line_after (ds_waiters (hb_dis hb)) w (ds_waiters (hb_dis hb'))"
  using Push_reaches_ok [OF assms(1), of "hb\<lparr>hb_dis := (hb_dis hb)\<lparr>ds_timer := Fired\<rparr>\<rparr>" q b]
    Push_line [of "hb\<lparr>hb_dis := (hb_dis hb)\<lparr>ds_timer := Fired\<rparr>\<rparr>" w q b env] assms(2,3)
  by (simp add: timer_fires_def)

lemma serving_reaches:
  assumes "line_live s" and "streams_ok s" and "serving_step P q s s'"
  shows "reaches (q_store q) P (hb_db (sv_hub s)) (hb_db (sv_hub s'))"
  using assms(3)
proof cases
  case (connect msg workerID env w hb hung)
  have "workerID \<noteq> ''''" using connect(3) by (auto simp: admit_def Let_def split: if_splits)
  with register_reaches_ok [OF connect(4), of w "sv_hub s" q] line_named [OF assms(1,2)] connect
  show ?thesis by simp
next
  case (turn i env sel st hb)
  with stream_turn_cases [of env q sel "sv_streams s ! i" "sv_hub s"] stream_named [OF assms(1,2)]
  show ?thesis by auto
next
  case (turn_ends i env sel x hb)
  with stream_turn_cases [of env q sel "sv_streams s ! i" "sv_hub s"] stream_named [OF assms(1,2)]
  show ?thesis by auto
next
  case (turn_hangs i env sel hb hung)
  with stream_turn_cases [of env q sel "sv_streams s ! i" "sv_hub s"] stream_named [OF assms(1,2)]
  show ?thesis by auto
next
  case (enqueue env x req uuid hb hung resp)
  with Enqueue_reaches [OF enqueue(3-5) line_named [OF assms(1,2)] enqueue(6)] show ?thesis by simp
next
  case (timer wait env hb hung)
  with timer_reaches [OF timer(4) line_named [OF assms(1,2)] timer(5)] show ?thesis by simp
qed

text \<open>A stream that ends takes its worker and its channel with it.\<close>

lemma stream_removed:
  assumes "line_live s" and "streams_ok s" and "i < length (sv_streams s)"
    and "ds_waiters (hb_dis hb) = drop_waiter (wt_workerID (sm_waiter (sv_streams s ! i)))
      (ds_waiters (hb_dis (sv_hub s)))"
    and "s' = s\<lparr>sv_hub := hb, sv_streams := drop_nth i (sv_streams s)\<rparr>"
  shows "line_live s' \<and> streams_ok s'"
proof -
  let ?w = "sm_waiter (sv_streams s ! i)" and ?ss = "drop_nth i (sv_streams s)"
  have ss: "map sm_waiter ?ss = drop_nth i (stream_waiters s)" by (simp add: drop_nth_map)
  have "set (stream_waiters s) = insert ?w (set (drop_nth i (stream_waiters s)))"
    using drop_nth_covers [of i "stream_waiters s"] assms(3) by simp
  moreover have "y \<in> set (stream_waiters s) \<and> wt_workerID y \<noteq> wt_workerID ?w"
    if "y \<in> set (ds_waiters (hb_dis hb))" for y
    using that drop_waiter_subset [of "ds_waiters (hb_dis (sv_hub s))" y "wt_workerID ?w"] assms(1)
    unfolding assms(4) line_live_def by (meson subsetD)
  ultimately have "set (ds_waiters (hb_dis hb)) \<subseteq> set (map sm_waiter ?ss)"
    unfolding ss by (metis insertE subsetI)
  then have "line_live s'"
    using assms(1) assms(5) distinct_drop_waiter by (simp add: line_live_def assms(4))
  moreover have "streams_ok s'"
  proof -
    have "stream_waiters s' = drop_nth i (stream_waiters s)" "sv_chans s' = sv_chans s"
      by (simp_all add: assms(5) drop_nth_map)
    moreover have "distinct (map wt_deliveries (drop_nth i (stream_waiters s)))"
      using assms(2) unfolding drop_nth_map [symmetric] streams_ok_def
      by (simp only: drop_nth_map distinct_drop_nth)
    ultimately show ?thesis
      using assms(2) set_drop_nth [of i "stream_waiters s"]
      unfolding streams_ok_def list_all_iff by (metis subsetD)
  qed
  ultimately show ?thesis ..
qed

text \<open>The line and the streams after each kind of step.\<close>

lemma serving_line:
  assumes "line_live s" and "streams_ok s" and "serving_step P q s s'"
  shows "line_live s' \<and> streams_ok s'"
  using assms(3)
proof cases
  case (connect msg workerID env w hb hung)
  have "workerID \<noteq> ''''" using connect(3) by (auto simp: admit_def Let_def split: if_splits)
  moreover have "line_after (ds_waiters (hb_dis (sv_hub s))) w (ds_waiters (hb_dis hb))"
    using register_line [of "sv_hub s" w q env] connect(6) by simp
  ultimately show ?thesis
    using line_live_after [OF assms(1), of w "ds_waiters (hb_dis hb)" "insert w (set (stream_waiters s))"]
      assms(2) connect
    by (auto simp: line_live_def streams_ok_def list_all_iff less_SucI)
next
  case (turn i env sel st hb)
  from stream_turn_cases [of env q sel "sv_streams s ! i" "sv_hub s"] stream_named [OF assms(1,2)] turn
  have st: "sm_waiter st = sm_waiter (sv_streams s ! i)"
      "line_after (ds_waiters (hb_dis (sv_hub s))) (sm_waiter (sv_streams s ! i)) (ds_waiters (hb_dis hb))"
    by auto
  have ws: "map sm_waiter ((sv_streams s)[i := st]) = stream_waiters s"
    using turn(3) st(1) by (rule sm_waiter_update)
  have "sm_waiter (sv_streams s ! i) \<in> set (stream_waiters s)" using turn(3) by simp
  with line_live_after [OF assms(1) st(2), of "set (stream_waiters s)"] assms(2) turn(1) show ?thesis
    by (simp add: line_live_def streams_ok_def ws del: set_map)
next
  case (turn_ends i env sel x hb)
  from stream_turn_cases [of env q sel "sv_streams s ! i" "sv_hub s"] stream_named [OF assms(1,2)] turn_ends
  have "ds_waiters (hb_dis hb) = drop_waiter (wt_workerID (sm_waiter (sv_streams s ! i)))
      (ds_waiters (hb_dis (sv_hub s)))" by auto
  with turn_ends(1,3) show ?thesis using stream_removed [OF assms(1,2)] by simp
next
  case (turn_hangs i env sel hb hung)
  from stream_turn_cases [of env q sel "sv_streams s ! i" "sv_hub s"] stream_named [OF assms(1,2)] turn_hangs
  have "line_after (ds_waiters (hb_dis (sv_hub s))) (sm_waiter (sv_streams s ! i)) (ds_waiters (hb_dis hb))"
    by auto
  with line_live_after [OF assms(1) this, of "set (stream_waiters s)"] turn_hangs assms(2) show ?thesis
    by (simp add: line_live_def streams_ok_def)
next
  case (enqueue env x req uuid hb hung resp)
  note after = Enqueue_reaches [OF enqueue(3-5) line_named [OF assms(1,2)] enqueue(6)]
  show ?thesis
    using line_live_same [OF assms(1), of "ds_waiters (hb_dis hb)"] after enqueue(1) assms(2)
    by (simp add: line_live_def streams_ok_def)
next
  case (timer wait env hb hung)
  note after = timer_reaches [OF timer(4) line_named [OF assms(1,2)] timer(5)]
  show ?thesis
    using line_live_same [OF assms(1), of "ds_waiters (hb_dis hb)"] after timer(1) assms(2)
    by (simp add: line_live_def streams_ok_def)
qed

end

lemma serving_keeps:
  assumes "serving_step P q s s'"
  shows "sv_lead s' = sv_lead s \<and> sv_ctxs s' = sv_ctxs s \<and> sv_cancel s' = sv_cancel s \<and> sv_stop s' = sv_stop s"
  using assms by cases simp_all

lemma serving_mono:
  assumes "serving_step P q s s'" and "\<And>op. P op \<Longrightarrow> Q op"
  shows "serving_step Q q s s'"
proof -
  have calls: "calls_in P x \<Longrightarrow> calls_in Q x" for x :: db_env
    using assms(2) by (auto simp: calls_in_def list_all_iff)
  then have env: "push_env_ok P env \<Longrightarrow> push_env_ok Q env" for env by (auto simp: push_env_ok_def)
  have msg: "heard P q st sel \<Longrightarrow> heard Q q st sel" for st sel
    using assms(2) by (auto simp: heard_def split: select_case.splits option.splits)
  show ?thesis
    using assms(1) by (induction rule: serving_step.induct) (auto intro: serving_step.intros dest: env msg calls)
qed

interpretation any_ops: served_ops op_ok by unfold_locales

lemma server_step_reaches:
  assumes "line_live s" and "streams_ok s" and "server_step q s s'"
  shows "reaches (q_store q) op_ok (hb_db (sv_hub s)) (hb_db (sv_hub s'))"
  using assms(3)
proof cases
  case serve
  then show ?thesis by (rule any_ops.serving_reaches [OF assms(1,2)])
next
  case (sweep c tm d res)
  with reaches_op [of op_ok "OpReap tm" "q_store q" "hb_db (sv_hub s)" c] show ?thesis
    by (simp add: Queue_ReapExpiredLeases_def)
next
  case (others xs)
  then show ?thesis by (auto simp: reaches_def)
qed simp_all

lemma server_step_line:
  assumes "line_live s" and "streams_ok s" and "server_step q s s'"
  shows "line_live s' \<and> streams_ok s'"
  using assms(3)
proof cases
  case serve
  then show ?thesis by (rule any_ops.serving_line [OF assms(1,2)])
qed (use assms(1,2) in \<open>simp_all add: line_live_def streams_ok_def\<close>)

lemma server_step_reign:
  assumes "reign_live s" and "server_step q s s'"
  shows "reign_live s'"
  using assms(2)
proof cases
  case serve
  from serving_keeps [OF this] assms(1) show ?thesis by (simp add: reign_live_def Let_def)
next
  case (win tm l h)
  then show ?thesis using assms(1)
    by (auto simp: reign_live_def leadership_defs Let_def list_all_iff less_Suc_eq split: if_splits)
next
  case (lose l cancel)
  then show ?thesis using assms(1)
    by (auto simp: reign_live_def leadership_defs Let_def split: if_splits)
next
  case (cancel c)
  then show ?thesis using assms(1)
    by (auto simp: reign_live_def leadership_defs Let_def split: if_splits)
qed (use assms(1) in \<open>simp_all add: reign_live_def Let_def\<close>)

lemma server_step_ok:
  assumes "engine_ok (q_store q)" and "server_ok s" and "server_step q s s'"
  shows "server_ok s'"
proof -
  from assms(2) have s: "db_ok (hb_db (sv_hub s))" "line_live s" "streams_ok s" "reign_live s"
    by (simp_all add: server_ok_def)
  show ?thesis
    using reaches_ok [OF assms(1) s(1) server_step_reaches [OF s(2,3) assms(3)]]
      server_step_line [OF s(2,3) assms(3)] server_step_reign [OF s(4) assms(3)]
    by (simp add: server_ok_def)
qed

lemma server_run:
  assumes "engine_ok (q_store q)" and "server_ok s" and "(server_step q)\<^sup>*\<^sup>* s s'"
  shows "server_ok s' \<and> reaches (q_store q) op_ok (hb_db (sv_hub s)) (hb_db (sv_hub s'))"
  using assms(3)
proof (induction rule: rtranclp_induct)
  case (step s1 s2)
  then have "line_live s1" "streams_ok s1" by (simp_all add: server_ok_def)
  with step server_step_ok [OF assms(1)] show ?case
    by (auto intro: reaches_trans server_step_reaches)
qed (use assms(2) in simp)

section \<open>A sample run\<close>

text \<open>A server wins, admits worker \<open>w9\<close> while a pass finds it not leading any more, and is deposed.\<close>

definition sv_start :: server where
  "sv_start = Server_New (5 * second) db1"

definition sv_won :: server where
  "sv_won = (case becomeLead 2 (sv_lead sv_start, sv_ctxs sv_start) of (l, h) \<Rightarrow>
     sv_start\<lparr>sv_lead := l, sv_ctxs := h\<rparr>)"

definition waiter9 :: waiter where
  "waiter9 = \<lparr>wt_workerID = ''w9'', wt_deliveries = 0\<rparr>"

definition late_env :: push_env where
  "late_env = \<lparr>pu_leading = sv_lead sv_start, pu_term = sv_lead sv_start, pu_db = (\<lambda>_. env_at 5000)\<rparr>"

definition sv_joined :: server where
  "sv_joined = sv_won\<lparr>sv_hub := (sv_hub sv_won)\<lparr>hb_dis := newDispatcher\<lparr>ds_waiters := [waiter9]\<rparr>\<rparr>,
     sv_streams := [\<lparr>sm_waiter = waiter9, sm_sent = []\<rparr>], sv_chans := 1\<rparr>"

definition sv_lost :: server where
  "sv_lost = sv_joined\<lparr>sv_lead := (sv_lead sv_joined)\<lparr>ld_cancel := None, ld_isLead := False\<rparr>,
     sv_cancel := Some 1\<rparr>"

definition sv_down :: server where
  "sv_down = sv_lost\<lparr>sv_ctxs := cancel_ctx 1 (sv_ctxs sv_lost), sv_cancel := None\<rparr>"

lemmas sv_defs = sv_start_def sv_won_def sv_joined_def sv_lost_def sv_down_def waiter9_def
  Server_New_def newDispatcher_def leadership_defs

lemma sample_joined: "(server_step queue1)\<^sup>*\<^sup>* sv_start sv_joined"
proof -
  obtain l h where lh: "becomeLead 2 (sv_lead sv_start, sv_ctxs sv_start) = (l, h)" by fastforce
  have won: "sv_won = sv_start\<lparr>sv_lead := l, sv_ctxs := h\<rparr>" by (simp add: sv_won_def lh)
  have "server_step queue1 sv_start sv_won"
    unfolding won by (rule server_step.win [OF _ _ lh]) (simp_all add: sv_defs)
  moreover have "serving_step op_ok queue1 sv_won (sv_won\<lparr>
      sv_hub := (sv_hub sv_won)\<lparr>hb_dis := newDispatcher\<lparr>ds_waiters := [waiter9]\<rparr>\<rparr>,
      sv_streams := sv_streams sv_won @ [\<lparr>sm_waiter = waiter9, sm_sent = []\<rparr>],
      sv_chans := Suc (sv_chans sv_won), sv_hung := None\<rparr>)"
  proof (rule serving_step.connect)
    show "admit (Inr (WorkerMessage_Hello \<lparr>hello_WorkerId = ''w9''\<rparr>)) (sv_lead sv_won) = Inr ''w9''"
      by (simp add: admit_def GetHello_def GetWorkerId_def sv_defs)
    show "push_env_ok op_ok late_env"
      by (simp add: push_env_ok_def late_env_def calls_in_def env_at_def sv_defs)
    show "register queue1 late_env waiter9 (sv_hub sv_won) =
        ((sv_hub sv_won)\<lparr>hb_dis := newDispatcher\<lparr>ds_waiters := [waiter9]\<rparr>\<rparr>, None)"
      by (simp add: register_def pushLocked_def late_env_def sv_defs)
  qed (simp_all add: sv_defs)
  moreover have "sv_won\<lparr>sv_hub := (sv_hub sv_won)\<lparr>hb_dis := newDispatcher\<lparr>ds_waiters := [waiter9]\<rparr>\<rparr>,
      sv_streams := sv_streams sv_won @ [\<lparr>sm_waiter = waiter9, sm_sent = []\<rparr>],
      sv_chans := Suc (sv_chans sv_won), sv_hung := None\<rparr> = sv_joined"
    by (simp add: sv_defs)
  ultimately show ?thesis by (metis converse_rtranclp_into_rtranclp rtranclp.rtrancl_refl server_step.serve)
qed

lemma sample_down: "(server_step queue1)\<^sup>*\<^sup>* sv_start sv_down"
proof -
  have "demote_locked (sv_lead sv_joined) =
      ((sv_lead sv_joined)\<lparr>ld_cancel := None, ld_isLead := False\<rparr>, Some 1)"
    by (simp add: sv_defs)
  then have "server_step queue1 sv_joined sv_lost"
    unfolding sv_lost_def by (intro server_step.lose) (simp_all add: sv_defs)
  moreover have "server_step queue1 sv_lost sv_down"
    unfolding sv_down_def by (rule server_step.cancel) (simp add: sv_lost_def)
  ultimately show ?thesis using sample_joined by (metis rtranclp.rtrancl_into_rtrancl)
qed

lemma queue1_engine [simp]: "engine_ok (q_store queue1)"
  by (simp add: queue1_def)

section \<open>The server as a whole\<close>







end
