(* ===== verification/Cluster.thy ===== *)
theory Cluster
  imports Server_Node
begin

text \<open>
  Several servers on one database. Each node is the server of \<open>Server_Node\<close> with its leadership
  loop at the grain of single calls: a poll of \<open>Campaign\<close>, a tick of \<open>Hold\<close>, \<open>becomeLead\<close>, the two
  halves of \<open>demote\<close>, \<open>Resign\<close>. Nodes take steps in any order, may crash at any moment and are
  started again with a fresh identifier.
\<close>

section \<open>Nodes and the cluster\<close>

text \<open>
  Where a node's \<open>Run\<close> is: in \<open>Campaign\<close>, back from it with a term, in \<open>Hold\<close>, about to demote
  (with what \<open>Hold\<close> returned), between the two halves of \<open>demote\<close>, about to resign, returned.
\<close>

datatype run_phase =
    Campaigning
  | Elected int
  | Holding
  | Demoting bool
  | Cancelling bool
  | Resigning
  | Returned

record cnode =
  cn_elect :: postgresElection
  cn_srv :: server
  cn_phase :: run_phase

text \<open>
  The shared database, the nodes, and two histories: the identifiers given out and the terms
  won, with the identifier of the winner, newest first. The database inside a node's server is
  not used; \<open>with_db\<close> puts the shared one there.
\<close>

record cluster =
  cl_db :: db
  cl_nodes :: "cnode list"
  cl_ids :: "string list"
  cl_terms :: "(string \<times> int) list"

abbreviation cid :: "cnode \<Rightarrow> string" where
  "cid n \<equiv> pe_nodeID (cn_elect n)"

definition with_db :: "db \<Rightarrow> server \<Rightarrow> server" where
  "with_db d s = s\<lparr>sv_hub := (sv_hub s)\<lparr>hb_db := d\<rparr>\<rparr>"

definition new_cnode :: "Queue \<Rightarrow> dur \<Rightarrow> dur \<Rightarrow> db \<Rightarrow> string \<Rightarrow> cnode" where
  "new_cnode q lease reapEvery d uuid = \<lparr>cn_elect = NewPostgresElection uuid q lease,
     cn_srv = Server_New reapEvery d, cn_phase = Campaigning\<rparr>"

definition new_cluster :: "Queue \<Rightarrow> dur \<Rightarrow> dur \<Rightarrow> db \<Rightarrow> string list \<Rightarrow> cluster" where
  "new_cluster q lease reapEvery d uuids = \<lparr>cl_db = d,
     cl_nodes = map (new_cnode q lease reapEvery d) uuids, cl_ids = map newNodeID uuids, cl_terms = []\<rparr>"

section \<open>The steps of a cluster\<close>

text \<open>
  Operations on the leadership row and on jobs commute, so the operations of other nodes inside
  a pass of the dispatcher are operations on jobs.
\<close>

definition job_op :: "store_op \<Rightarrow> bool" where
  "job_op op \<longleftrightarrow> op_ok op \<and> \<not> leader_op op"

definition after_campaign :: "(goerror + int) option \<Rightarrow> run_phase" where
  "after_campaign res = (case res of
      None \<Rightarrow> Campaigning | Some (Inl err) \<Rightarrow> Returned | Some (Inr tm) \<Rightarrow> Elected tm)"

definition won_terms :: "string \<Rightarrow> (goerror + int) option \<Rightarrow> (string \<times> int) list" where
  "won_terms i res = (case res of Some (Inr tm) \<Rightarrow> [(i, tm)] | _ \<Rightarrow> [])"

fun hold_stopping :: "hold_event \<Rightarrow> bool" where
  "hold_stopping HoldDone \<longleftrightarrow> True"
| "hold_stopping (HoldTick p) \<longleftrightarrow> tk_ctx_err p"

fun hold_alone :: "hold_event \<Rightarrow> bool" where
  "hold_alone HoldDone \<longleftrightarrow> True"
| "hold_alone (HoldTick p) \<longleftrightarrow> env_before p = []"

text \<open>A step changes one node \<open>n\<close>, at place \<open>i\<close>, and the shared state.\<close>

definition put :: "nat \<Rightarrow> cnode \<Rightarrow> db \<Rightarrow> cluster \<Rightarrow> cluster" where
  "put i n d c = c\<lparr>cl_db := d, cl_nodes := (cl_nodes c)[i := n]\<rparr>"

inductive cluster_step :: "Queue \<Rightarrow> dur \<Rightarrow> cluster \<Rightarrow> cluster \<Rightarrow> bool" for q :: Queue and lease :: dur where
  serve: "i < length (cl_nodes c) \<Longrightarrow> n = cl_nodes c ! i \<Longrightarrow>
    serving_step job_op q (with_db (cl_db c) (cn_srv n)) s \<Longrightarrow>
    cluster_step q lease c (put i (n\<lparr>cn_srv := s\<rparr>) (hb_db (sv_hub s)) c)"
| campaign: "i < length (cl_nodes c) \<Longrightarrow> n = cl_nodes c ! i \<Longrightarrow> cn_phase n = Campaigning \<Longrightarrow>
    env_before p = [] \<Longrightarrow> tk_ctx_err p \<or> pl_done p \<longrightarrow> sv_stop (cn_srv n) \<Longrightarrow>
    postgres_Campaign (cn_elect n) [p] (cl_db c) = (d, res) \<Longrightarrow>
    cluster_step q lease c ((put i (n\<lparr>cn_phase := after_campaign res\<rparr>) d c)
      \<lparr>cl_terms := won_terms (cid n) res @ cl_terms c\<rparr>)"
| leave_loop: "i < length (cl_nodes c) \<Longrightarrow> n = cl_nodes c ! i \<Longrightarrow> cn_phase n = Campaigning \<Longrightarrow>
    sv_stop (cn_srv n) \<Longrightarrow> cluster_step q lease c (put i (n\<lparr>cn_phase := Returned\<rparr>) (cl_db c) c)"
| crown: "i < length (cl_nodes c) \<Longrightarrow> n = cl_nodes c ! i \<Longrightarrow> cn_phase n = Elected tm \<Longrightarrow>
    becomeLead tm (sv_lead (cn_srv n), sv_ctxs (cn_srv n)) = (l, h) \<Longrightarrow>
    cluster_step q lease c (put i (n\<lparr>cn_srv := (cn_srv n)\<lparr>sv_lead := l, sv_ctxs := h\<rparr>,
      cn_phase := Holding\<rparr>) (cl_db c) c)"
| hold: "i < length (cl_nodes c) \<Longrightarrow> n = cl_nodes c ! i \<Longrightarrow> cn_phase n = Holding \<Longrightarrow>
    hold_alone ev \<Longrightarrow> hold_stopping ev \<longrightarrow> sv_stop (cn_srv n) \<Longrightarrow>
    postgres_Hold (cn_elect n) [ev] (cl_db c) = (d, res) \<Longrightarrow>
    cluster_step q lease c (put i (n\<lparr>cn_phase := (case res of None \<Rightarrow> Holding | Some b \<Rightarrow> Demoting b)\<rparr>) d c)"
| demote_lock: "i < length (cl_nodes c) \<Longrightarrow> n = cl_nodes c ! i \<Longrightarrow> cn_phase n = Demoting b \<Longrightarrow>
    demote_locked (sv_lead (cn_srv n)) = (l, cancel) \<Longrightarrow>
    cluster_step q lease c (put i (n\<lparr>cn_srv := (cn_srv n)\<lparr>sv_lead := l, sv_cancel := cancel\<rparr>,
      cn_phase := Cancelling b\<rparr>) (cl_db c) c)"
| demote_cancel: "i < length (cl_nodes c) \<Longrightarrow> n = cl_nodes c ! i \<Longrightarrow> cn_phase n = Cancelling b \<Longrightarrow>
    sv_cancel (cn_srv n) = Some x \<Longrightarrow>
    cluster_step q lease c (put i (n\<lparr>cn_srv := (cn_srv n)\<lparr>sv_ctxs := cancel_ctx x (sv_ctxs (cn_srv n)),
      sv_cancel := None\<rparr>, cn_phase := (if b then Campaigning else Resigning)\<rparr>) (cl_db c) c)"
| resign: "i < length (cl_nodes c) \<Longrightarrow> n = cl_nodes c ! i \<Longrightarrow> cn_phase n = Resigning \<Longrightarrow>
    env_before x = [] \<Longrightarrow> postgres_Resign (cn_elect n) x (cl_db c) = (d, err) \<Longrightarrow>
    cluster_step q lease c (put i (n\<lparr>cn_phase := Returned\<rparr>) d c)"
| sweep: "i < length (cl_nodes c) \<Longrightarrow> n = cl_nodes c ! i \<Longrightarrow> (cid n, tm) \<in> set (cl_terms c) \<Longrightarrow>
    Queue_ReapExpiredLeases q x tm (cl_db c) = (d, res) \<Longrightarrow>
    cluster_step q lease c (put i n d c)"
| signal: "i < length (cl_nodes c) \<Longrightarrow> n = cl_nodes c ! i \<Longrightarrow>
    cluster_step q lease c (put i (n\<lparr>cn_srv := (cn_srv n)\<lparr>sv_stop := True\<rparr>\<rparr>) (cl_db c) c)"
| restart: "i < length (cl_nodes c) \<Longrightarrow> newNodeID uuid \<notin> set (cl_ids c) \<Longrightarrow> newNodeID uuid \<noteq> '''' \<Longrightarrow>
    cluster_step q lease c ((put i (new_cnode q lease reapEvery (cl_db c) uuid) (cl_db c) c)
      \<lparr>cl_ids := newNodeID uuid # cl_ids c\<rparr>)"

section \<open>The invariant\<close>

text \<open>The term of the reign a node is in, or about to begin.\<close>

definition current :: "cnode \<Rightarrow> int option" where
  "current n = (case cn_phase n of
      Elected tm \<Rightarrow> Some tm
    | Holding \<Rightarrow> Some (Term (sv_lead (cn_srv n)))
    | Demoting b \<Rightarrow> Some (Term (sv_lead (cn_srv n)))
    | _ \<Rightarrow> None)"

text \<open>
  A node leads in the phases where the code does, the term of its reign was won by it, and as
  long as the leadership row names the node, the row has that term: nobody can win for it.
\<close>

definition node_fits :: "Queue \<Rightarrow> (string \<times> int) list \<Rightarrow> leadership_row \<Rightarrow> cnode \<Rightarrow> bool" where
  "node_fits q terms row n \<longleftrightarrow>
     pe_q (cn_elect n) = q
   \<and> line_live (cn_srv n) \<and> streams_ok (cn_srv n) \<and> reign_live (cn_srv n)
   \<and> Leading (sv_lead (cn_srv n)) = (cn_phase n = Holding \<or> (\<exists>b. cn_phase n = Demoting b))
   \<and> (sv_cancel (cn_srv n) \<noteq> None) = (\<exists>b. cn_phase n = Cancelling b)
   \<and> (\<forall>tm. current n = Some tm \<longrightarrow>
        (cid n, tm) \<in> set terms \<and> (lr_leader_id row = cid n \<longrightarrow> lr_term row = tm))"

definition cluster_ok :: "Queue \<Rightarrow> cluster \<Rightarrow> bool" where
  "cluster_ok q c \<longleftrightarrow> db_ok (cl_db c)
   \<and> distinct (map cid (cl_nodes c)) \<and> set (map cid (cl_nodes c)) \<subseteq> set (cl_ids c)
   \<and> '''' \<notin> set (cl_ids c)
   \<and> distinct (map snd (cl_terms c)) \<and> list_all (\<lambda>x. snd x \<le> row_last (cl_db c)) (cl_terms c)
   \<and> list_all (node_fits q (cl_terms c) (leadership (cl_db c))) (cl_nodes c)"

lemma new_cluster_ok:
  assumes "db_ok d" and "distinct (map newNodeID uuids)" and "'''' \<notin> newNodeID ` set uuids"
  shows "cluster_ok q (new_cluster q lease reapEvery d uuids)"
proof -
  have "node_fits q [] r (new_cnode q lease reapEvery d u)" for r u
    using Server_New_ok [OF assms(1), of reapEvery]
    by (auto simp: node_fits_def new_cnode_def NewPostgresElection_def current_def server_ok_def
        Server_New_def leadership_defs)
  then show ?thesis
    using assms by (auto simp: cluster_ok_def new_cluster_def new_cnode_def NewPostgresElection_def
        list_all_iff comp_def)
qed

section \<open>Every step keeps the invariant\<close>

text \<open>What a change of the leadership row leaves true for a node that did not make it.\<close>

definition row_kept :: "string \<Rightarrow> leadership_row \<Rightarrow> leadership_row \<Rightarrow> bool" where
  "row_kept j row row' \<longleftrightarrow>
     (lr_leader_id row' = j \<longrightarrow> lr_leader_id row = j \<and> lr_term row' = lr_term row)"

lemma row_kept_refl [simp]: "row_kept j row row"
  by (simp add: row_kept_def)

lemma node_fits_kept:
  "node_fits q terms row n \<Longrightarrow> row_kept (cid n) row row' \<Longrightarrow> set terms \<subseteq> set terms' \<Longrightarrow>
     node_fits q terms' row' n"
  by (auto simp: node_fits_def row_kept_def)

lemma cluster_ok_put:
  assumes "cluster_ok q c" and "i < length (cl_nodes c)" and "db_ok d" and "row_last (cl_db c) \<le> row_last d"
    and "node_fits q (ws @ cl_terms c) (leadership d) n"
    and "\<forall>j < length (cl_nodes c). j \<noteq> i \<longrightarrow> cid (cl_nodes c ! j) \<noteq> cid n
      \<and> row_kept (cid (cl_nodes c ! j)) (leadership (cl_db c)) (leadership d)"
    and "distinct (map snd (ws @ cl_terms c))" and "list_all (\<lambda>x. snd x \<le> row_last d) ws"
    and "insert (cid n) (set (cl_ids c)) = set is" and "cid n \<noteq> ''''"
  shows "cluster_ok q ((put i n d c)\<lparr>cl_terms := ws @ cl_terms c, cl_ids := is\<rparr>)"
proof -
  let ?ns = "(cl_nodes c)[i := n]"
  have fits: "node_fits q (ws @ cl_terms c) (leadership d) (?ns ! j)" if "j < length ?ns" for j
  proof (cases "j = i")
    case False
    with assms(1) that have "node_fits q (cl_terms c) (leadership (cl_db c)) (cl_nodes c ! j)"
      by (simp add: cluster_ok_def list_all_length)
    from node_fits_kept [OF this, of "leadership d" "ws @ cl_terms c"] False that assms(6) show ?thesis by simp
  qed (use assms(2,5) in simp)
  have "distinct (map cid ?ns)"
  proof (subst distinct_conv_nth, intro allI impI)
    fix j k assume "j < length (map cid ?ns)" "k < length (map cid ?ns)" "j \<noteq> k"
    moreover have "distinct (map cid (cl_nodes c))" using assms(1) by (simp add: cluster_ok_def)
    ultimately show "map cid ?ns ! j \<noteq> map cid ?ns ! k"
      using assms(2,6) by (cases "j = i"; cases "k = i") (auto simp: distinct_conv_nth)
  qed
  moreover have "set ?ns \<subseteq> insert n (set (cl_nodes c))" by (rule set_update_subset_insert)
  moreover have "'''' \<notin> set is" "set (map cid (cl_nodes c)) \<subseteq> set (cl_ids c)"
      "set (cl_ids c) \<subseteq> set is" "cid n \<in> set is"
    using assms(1,10) unfolding cluster_ok_def assms(9) [symmetric] by auto
  moreover have "list_all (\<lambda>x. snd x \<le> row_last d) (ws @ cl_terms c)"
    using assms(1,4,8) by (auto simp: cluster_ok_def list_all_iff)
  ultimately show ?thesis
    using assms(3,7) fits by (auto simp: cluster_ok_def put_def list_all_length)
qed

text \<open>The same for a step that wins nothing and renames nobody.\<close>

lemma cluster_ok_put_same:
  assumes "cluster_ok q c" and "i < length (cl_nodes c)" and "db_ok d" and "row_last (cl_db c) \<le> row_last d"
    and "node_fits q (cl_terms c) (leadership d) n" and "cid n = cid (cl_nodes c ! i)"
    and "\<And>j. j \<noteq> cid n \<Longrightarrow> j \<noteq> '''' \<Longrightarrow> row_kept j (leadership (cl_db c)) (leadership d)"
  shows "cluster_ok q (put i n d c)"
proof -
  have ids: "distinct (map cid (cl_nodes c))" "set (map cid (cl_nodes c)) \<subseteq> set (cl_ids c)"
      "'''' \<notin> set (cl_ids c)" "distinct (map snd (cl_terms c))"
    using assms(1) by (simp_all add: cluster_ok_def)
  have other: "cid (cl_nodes c ! j) \<noteq> cid n \<and> cid (cl_nodes c ! j) \<noteq> ''''"
    if "j < length (cl_nodes c)" "j \<noteq> i" for j
  proof -
    have "cid (cl_nodes c ! j) \<in> set (cl_ids c)" using ids(2) that(1) by auto
    with ids(1,3) that assms(2,6) show ?thesis by (auto simp: distinct_conv_nth)
  qed
  have mine: "cid n \<in> set (cl_ids c)" using ids(2) assms(2,6) by auto
  with ids(3) have "cid n \<noteq> ''''" by metis
  with mine cluster_ok_put [OF assms(1-4), of "[]" n "cl_ids c"] other assms(5,7) ids show ?thesis
    by (auto simp: put_def insert_absorb)
qed

text \<open>One poll, one tick and one resignation, as store operations and what they do to the row.\<close>

lemma campaign_poll:
  assumes "engine_ok (q_store (pe_q pe))" and "env_before p = []" and "postgres_Campaign pe [p] d = (d', res)"
  shows "d' = apply_op (q_store (pe_q pe)) (env_call p) (OpCampaign (pe_nodeID pe) (pe_lease pe)) d"
    and "res = Some (Inr tm) \<Longrightarrow> tm = row_last d + 1 \<and> row_last d' = tm \<and> lr_leader_id (leadership d') = pe_nodeID pe"
    and "j \<noteq> pe_nodeID pe \<Longrightarrow> row_kept j (leadership d) (leadership d')"
proof -
  let ?e = "q_store (pe_q pe)" and ?op = "OpCampaign (pe_nodeID pe) (pe_lease pe)"
  obtain d1 r where call: "Campaign ?e (env_call p) (pe_nodeID pe) (pe_lease pe) d = (d1, r)" by fastforce
  have step: "postgres_Campaign pe [p] d =
     (if \<exists>tm. r = Inr (tm, True) then (d1, Some (Inr (fst (projr r))))
      else if tk_ctx_err p \<or> pl_done p then (d1, Some (Inl ErrCanceled)) else (d1, None))"
    using postgres_Campaign_step [of pe p d d1 r "[]"] call assms(2)
    by (simp add: Queue_Campaign_def meet_def del: postgres_Campaign.simps(2))
  have d1: "d' = d1" using assms(3) step by (simp split: if_splits)
  with call show eq: "d' = apply_op ?e (env_call p) ?op d" by simp
  show "tm = row_last d + 1 \<and> row_last d' = tm \<and> lr_leader_id (leadership d') = pe_nodeID pe"
    if "res = Some (Inr tm)"
  proof -
    have "r = Inr (tm, True)" using that assms(3) step by (auto split: if_splits)
    with won_term [OF assms(1), of "env_call p" ?op d "pe_nodeID pe" tm] call d1 show ?thesis by simp
  qed
  show "row_kept j (leadership d) (leadership d')" if "j \<noteq> pe_nodeID pe"
    unfolding eq row_kept_def
    by (rule apply_op_leadership_cases [OF assms(1), of "env_call p" ?op d]) (use that in simp_all)
qed

lemma hold_op:
  assumes "hold_alone ev" and "postgres_Hold pe [ev] d = (d', res)"
  obtains (idle) "d' = d"
    | (renewal) c where "d' = apply_op (q_store (pe_q pe)) c (OpRenew (pe_nodeID pe) (pe_lease pe)) d"
proof (cases ev)
  case (HoldTick p)
  obtain d1 r where call: "RenewLeadership (q_store (pe_q pe)) (env_call p) (pe_nodeID pe) (pe_lease pe) d = (d1, r)"
    by fastforce
  with assms HoldTick have "d' = d1"
    by (auto simp: Queue_RenewLeadership_def meet_def split: sum.splits if_splits)
  with call renewal [of "env_call p"] show thesis by simp
qed (use assms(2) idle in simp)

lemma hold_tick:
  assumes "engine_ok (q_store (pe_q pe))" and "hold_alone ev" and "postgres_Hold pe [ev] d = (d', res)"
  shows "reaches (q_store (pe_q pe)) op_ok d d'
    \<and> row_kept j (leadership d) (leadership d') \<and> row_last d' = row_last d
    \<and> lr_leader_id (leadership d') = lr_leader_id (leadership d)"
  using assms(2,3)
proof (cases rule: hold_op)
  case (renewal c)
  let ?op = "OpRenew (pe_nodeID pe) (pe_lease pe)"
  have "reaches (q_store (pe_q pe)) op_ok d d'" unfolding renewal by (rule reaches_op) simp
  moreover have "lr_leader_id (leadership d') = lr_leader_id (leadership d) \<and> row_last d' = row_last d"
    unfolding renewal by (rule apply_op_leadership_cases [OF assms(1), of c ?op d]) simp_all
  ultimately show ?thesis by (simp add: row_kept_def)
qed simp

lemma resign_call:
  assumes "engine_ok (q_store (pe_q pe))" and "env_before x = []" and "postgres_Resign pe x d = (d', err)"
  shows "d' = apply_op (q_store (pe_q pe)) (env_call x) (OpResign (pe_nodeID pe)) d"
    and "j \<noteq> '''' \<Longrightarrow> row_kept j (leadership d) (leadership d') \<and> row_last d' = row_last d"
proof -
  show eq: "d' = apply_op (q_store (pe_q pe)) (env_call x) (OpResign (pe_nodeID pe)) d"
    using assms(2,3) by (simp add: postgres_Resign_def meet_def Queue_ResignLeadership_def)
  show "row_kept j (leadership d) (leadership d') \<and> row_last d' = row_last d" if "j \<noteq> ''''"
    unfolding eq row_kept_def
    by (rule apply_op_leadership_cases [OF assms(1), of "env_call x" "OpResign (pe_nodeID pe)" d])
       (use that in simp_all)
qed

lemma with_db_simps [simp]:
  "line_live (with_db d s) = line_live s" "streams_ok (with_db d s) = streams_ok s"
  "reign_live (with_db d s) = reign_live s" "sv_lead (with_db d s) = sv_lead s"
  "sv_ctxs (with_db d s) = sv_ctxs s" "sv_cancel (with_db d s) = sv_cancel s"
  "sv_stop (with_db d s) = sv_stop s" "hb_db (sv_hub (with_db d s)) = d"
  by (simp_all add: with_db_def line_live_def streams_ok_def reign_live_def)

lemma with_db_id [simp]:
  "with_db (hb_db (sv_hub s)) s = s" "with_db d (with_db d' s) = with_db d s"
  by (simp_all add: with_db_def)

interpretation cluster_ops: served_ops job_op
  by unfold_locales (simp add: job_op_def)

lemma job_op_ok: "job_op op \<Longrightarrow> op_ok op"
  by (simp add: job_op_def)

lemma reaches_job_op:
  assumes "reaches e job_op d d'"
  shows "leadership d' = leadership d" and "reaches e op_ok d d'"
  using assms by (auto simp: reaches_def job_op_def list_all_iff intro!: run_ops_leadership)

lemma cluster_node:
  assumes "cluster_ok q c" and "i < length (cl_nodes c)"
  shows "node_fits q (cl_terms c) (leadership (cl_db c)) (cl_nodes c ! i)" and "db_ok (cl_db c)"
    and "cid (cl_nodes c ! i) \<in> set (cl_ids c)" and "cid (cl_nodes c ! i) \<noteq> ''''"
proof -
  show "cid (cl_nodes c ! i) \<in> set (cl_ids c)" using assms by (auto simp: cluster_ok_def)
  then show "cid (cl_nodes c ! i) \<noteq> ''''" using assms(1) by (metis cluster_ok_def)
qed (use assms in \<open>simp_all add: cluster_ok_def list_all_length\<close>)

lemma serve_ok:
  assumes "engine_ok (q_store q)" and "cluster_ok q c" and "i < length (cl_nodes c)"
    and "serving_step job_op q (with_db (cl_db c) (cn_srv (cl_nodes c ! i))) s"
  shows "cluster_ok q (put i ((cl_nodes c ! i)\<lparr>cn_srv := s\<rparr>) (hb_db (sv_hub s)) c)"
    and "reaches (q_store q) op_ok (cl_db c) (hb_db (sv_hub s))"
proof -
  let ?n = "cl_nodes c ! i"
  note n = cluster_node [OF assms(2,3)]
  then have live: "line_live (with_db (cl_db c) (cn_srv ?n))" "streams_ok (with_db (cl_db c) (cn_srv ?n))"
    by (simp_all add: node_fits_def)
  have "reaches (q_store q) job_op (cl_db c) (hb_db (sv_hub s))"
    using cluster_ops.serving_reaches [OF live assms(4)] by simp
  note db = reaches_job_op [OF this]
  then show "reaches (q_store q) op_ok (cl_db c) (hb_db (sv_hub s))" by simp
  have keeps: "sv_lead s = sv_lead (cn_srv ?n)" "sv_cancel s = sv_cancel (cn_srv ?n)"
      "reign_live s = reign_live (cn_srv ?n)" "current (?n\<lparr>cn_srv := s\<rparr>) = current ?n"
    using serving_keeps [OF assms(4)] by (simp_all add: reign_live_def current_def split: run_phase.split)
  have "node_fits q (cl_terms c) (leadership (hb_db (sv_hub s))) (?n\<lparr>cn_srv := s\<rparr>)"
    using n(1) cluster_ops.serving_line [OF live assms(4)] keeps db(1) by (simp add: node_fits_def)
  with reaches_ok [OF assms(1) n(2) db(2)] db(1) assms(2,3)
  show "cluster_ok q (put i (?n\<lparr>cn_srv := s\<rparr>) (hb_db (sv_hub s)) c)"
    by (intro cluster_ok_put_same) simp_all
qed

lemma campaign_ok:
  assumes "engine_ok (q_store q)" and "cluster_ok q c" and "i < length (cl_nodes c)"
    and "n = cl_nodes c ! i" and "cn_phase n = Campaigning" and "env_before p = []"
    and "postgres_Campaign (cn_elect n) [p] (cl_db c) = (d, res)"
  shows "cluster_ok q ((put i (n\<lparr>cn_phase := after_campaign res\<rparr>) d c)
      \<lparr>cl_terms := won_terms (cid n) res @ cl_terms c\<rparr>)"
    and "reaches (q_store q) op_ok (cl_db c) d"
proof -
  note fits = cluster_node [OF assms(2,3), folded assms(4)]
  then have eng: "q_store (pe_q (cn_elect n)) = q_store q" by (simp add: node_fits_def)
  note poll = campaign_poll [OF _ assms(6,7), unfolded eng, OF assms(1)]
  show db: "reaches (q_store q) op_ok (cl_db c) d" unfolding poll(1) by (rule reaches_op) simp
  have "row_last (cl_db c) \<le> row_last d" unfolding poll(1) by (rule apply_op_term_mono [OF assms(1)])
  moreover have "node_fits q (won_terms (cid n) res @ cl_terms c) (leadership d)
      (n\<lparr>cn_phase := after_campaign res\<rparr>)"
    using fits(1) assms(5) poll(2)
    by (auto simp: node_fits_def current_def after_campaign_def won_terms_def
        split: option.splits sum.splits)
  moreover have "distinct (map snd (won_terms (cid n) res @ cl_terms c))"
      "list_all (\<lambda>x. snd x \<le> row_last d) (won_terms (cid n) res)"
    using assms(2) poll(2) by (auto simp: won_terms_def cluster_ok_def list_all_iff split: option.splits sum.splits)
  moreover have "\<forall>j < length (cl_nodes c). j \<noteq> i \<longrightarrow> cid (cl_nodes c ! j) \<noteq> cid n
      \<and> row_kept (cid (cl_nodes c ! j)) (leadership (cl_db c)) (leadership d)"
    using assms(2-4) poll(3) by (auto simp: cluster_ok_def distinct_conv_nth)
  ultimately show "cluster_ok q ((put i (n\<lparr>cn_phase := after_campaign res\<rparr>) d c)
      \<lparr>cl_terms := won_terms (cid n) res @ cl_terms c\<rparr>)"
    using cluster_ok_put [OF assms(2,3), of d "won_terms (cid n) res" "n\<lparr>cn_phase := after_campaign res\<rparr>" "cl_ids c"]
      reaches_ok [OF assms(1) fits(2) db] fits(3,4) by (simp add: insert_absorb put_def)
qed

lemma cl_db_put [simp]: "cl_db (put i n d c) = d" "cl_db (c\<lparr>cl_terms := ts\<rparr>) = cl_db c" "cl_db (c\<lparr>cl_ids := is\<rparr>) = cl_db c"
  by (simp_all add: put_def)

text \<open>A call of node \<open>n\<close> that wins nothing, and a step that makes no call.\<close>

lemma call_ok:
  assumes "engine_ok (q_store q)" and "cluster_ok q c" and "i < length (cl_nodes c)"
    and "reaches (q_store q) op_ok (cl_db c) d" and "row_last d = row_last (cl_db c)"
    and "\<And>j. j \<noteq> '''' \<Longrightarrow> row_kept j (leadership (cl_db c)) (leadership d)"
    and "node_fits q (cl_terms c) (leadership d) n" and "cid n = cid (cl_nodes c ! i)"
  shows "cluster_ok q (put i n d c) \<and> reaches (q_store q) op_ok (cl_db c) d"
  using assms reaches_ok [OF assms(1) cluster_node(2) [OF assms(2,3)] assms(4)]
  by (auto intro!: cluster_ok_put_same)

lemma node_only_ok:
  assumes "cluster_ok q c" and "i < length (cl_nodes c)"
    and "node_fits q (cl_terms c) (leadership (cl_db c)) n" and "cid n = cid (cl_nodes c ! i)"
  shows "cluster_ok q (put i n (cl_db c) c)"
  using assms cluster_node(2) [OF assms(1,2)] by (intro cluster_ok_put_same) simp_all

text \<open>The steps of the loop in which the node's server takes the matching step of its own.\<close>

lemma loop_step_ok:
  assumes "cluster_ok q c" and "i < length (cl_nodes c)" and "n = cl_nodes c ! i"
    and "server_step q (cn_srv n) s" and "line_live s = line_live (cn_srv n)"
    and "streams_ok s = streams_ok (cn_srv n)"
    and "Leading (sv_lead s) = (ph = Holding \<or> (\<exists>b. ph = Demoting b))"
    and "(sv_cancel s \<noteq> None) = (\<exists>b. ph = Cancelling b)"
    and "current (n\<lparr>cn_srv := s, cn_phase := ph\<rparr>) \<in> {None, current n}"
  shows "cluster_ok q (put i (n\<lparr>cn_srv := s, cn_phase := ph\<rparr>) (cl_db c) c)"
proof -
  note fits = cluster_node [OF assms(1,2), folded assms(3)]
  then have "reign_live s" using server_step_reign [OF _ assms(4)] by (simp add: node_fits_def)
  then have "node_fits q (cl_terms c) (leadership (cl_db c)) (n\<lparr>cn_srv := s, cn_phase := ph\<rparr>)"
    using fits(1) assms(5-9) by (auto simp: node_fits_def)
  with assms(1-3) show ?thesis by (intro node_only_ok) simp_all
qed

lemma crown_ok:
  assumes "cluster_ok q c" and "i < length (cl_nodes c)" and "n = cl_nodes c ! i"
    and "cn_phase n = Elected tm" and "becomeLead tm (sv_lead (cn_srv n), sv_ctxs (cn_srv n)) = (l, h)"
  shows "cluster_ok q (put i (n\<lparr>cn_srv := (cn_srv n)\<lparr>sv_lead := l, sv_ctxs := h\<rparr>, cn_phase := Holding\<rparr>) (cl_db c) c)"
proof -
  have idle: "\<not> Leading (sv_lead (cn_srv n))" "sv_cancel (cn_srv n) = None"
    using cluster_node(1) [OF assms(1,2)] assms(3,4) by (auto simp: node_fits_def)
  then have "server_step q (cn_srv n) ((cn_srv n)\<lparr>sv_lead := l, sv_ctxs := h\<rparr>)"
    using assms(5) by (rule server_step.win)
  with assms idle show ?thesis
    by (intro loop_step_ok) (auto simp: current_def line_live_def streams_ok_def leadership_defs)
qed

lemma demote_lock_ok:
  assumes "cluster_ok q c" and "i < length (cl_nodes c)" and "n = cl_nodes c ! i"
    and "cn_phase n = Demoting b" and "demote_locked (sv_lead (cn_srv n)) = (l, cancel)"
  shows "cluster_ok q (put i (n\<lparr>cn_srv := (cn_srv n)\<lparr>sv_lead := l, sv_cancel := cancel\<rparr>,
      cn_phase := Cancelling b\<rparr>) (cl_db c) c)"
proof -
  have lead: "Leading (sv_lead (cn_srv n))" "sv_cancel (cn_srv n) = None" "reign_live (cn_srv n)"
    using cluster_node(1) [OF assms(1,2)] assms(3,4) by (auto simp: node_fits_def)
  then have "server_step q (cn_srv n) ((cn_srv n)\<lparr>sv_lead := l, sv_cancel := cancel\<rparr>)"
    using assms(5) by (intro server_step.lose) simp_all
  moreover have "\<not> Leading l" "cancel \<noteq> None"
    using lead assms(5) by (auto simp: reign_live_def leadership_defs Let_def)
  ultimately show ?thesis
    using assms by (intro loop_step_ok) (auto simp: current_def line_live_def streams_ok_def)
qed

lemma demote_cancel_ok:
  assumes "cluster_ok q c" and "i < length (cl_nodes c)" and "n = cl_nodes c ! i"
    and "cn_phase n = Cancelling b" and "sv_cancel (cn_srv n) = Some x"
  shows "cluster_ok q (put i (n\<lparr>cn_srv := (cn_srv n)\<lparr>sv_ctxs := cancel_ctx x (sv_ctxs (cn_srv n)),
      sv_cancel := None\<rparr>, cn_phase := (if b then Campaigning else Resigning)\<rparr>) (cl_db c) c)"
proof -
  have "\<not> Leading (sv_lead (cn_srv n))"
    using cluster_node(1) [OF assms(1,2)] assms(3,4) by (auto simp: node_fits_def)
  with server_step.cancel [OF assms(5), of q] assms show ?thesis
    by (intro loop_step_ok) (auto simp: current_def line_live_def streams_ok_def)
qed

lemma hold_ok:
  assumes "engine_ok (q_store q)" and "cluster_ok q c" and "i < length (cl_nodes c)" and "n = cl_nodes c ! i"
    and "cn_phase n = Holding" and "hold_alone ev" and "postgres_Hold (cn_elect n) [ev] (cl_db c) = (d, res)"
  shows "cluster_ok q (put i (n\<lparr>cn_phase := (case res of None \<Rightarrow> Holding | Some b \<Rightarrow> Demoting b)\<rparr>) d c)
    \<and> reaches (q_store q) op_ok (cl_db c) d"
proof -
  note fits = cluster_node(1) [OF assms(2,3), folded assms(4)]
  then have "q_store (pe_q (cn_elect n)) = q_store q" by (simp add: node_fits_def)
  with hold_tick [OF _ assms(6,7)] assms(1)
  have tick: "reaches (q_store q) op_ok (cl_db c) d" "row_last d = row_last (cl_db c)"
      "lr_leader_id (leadership d) = lr_leader_id (leadership (cl_db c))"
      "\<And>j. row_kept j (leadership (cl_db c)) (leadership d)" by simp_all
  have "node_fits q (cl_terms c) (leadership d)
      (n\<lparr>cn_phase := (case res of None \<Rightarrow> Holding | Some b \<Rightarrow> Demoting b)\<rparr>)"
    using fits assms(5) tick(2,3) by (auto simp: node_fits_def current_def split: option.splits)
  with assms(1-4) tick show ?thesis by (intro call_ok) simp_all
qed

lemma resigning_ok:
  assumes "engine_ok (q_store q)" and "cluster_ok q c" and "i < length (cl_nodes c)" and "n = cl_nodes c ! i"
    and "cn_phase n = Resigning" and "env_before x = []" and "postgres_Resign (cn_elect n) x (cl_db c) = (d, err)"
  shows "cluster_ok q (put i (n\<lparr>cn_phase := Returned\<rparr>) d c) \<and> reaches (q_store q) op_ok (cl_db c) d"
proof -
  note fits = cluster_node(1) [OF assms(2,3), folded assms(4)]
  then have eng: "q_store (pe_q (cn_elect n)) = q_store q" by (simp add: node_fits_def)
  note call = resign_call [OF _ assms(6,7), unfolded eng, OF assms(1)]
  have "reaches (q_store q) op_ok (cl_db c) d" unfolding call(1) by (rule reaches_op) simp
  moreover have "row_last d = row_last (cl_db c)" using call(2) [of "''x''"] by simp
  moreover have "node_fits q (cl_terms c) (leadership d) (n\<lparr>cn_phase := Returned\<rparr>)"
    using fits assms(5) by (auto simp: node_fits_def current_def)
  ultimately show ?thesis using assms(1-4) call(2) by (intro call_ok) simp_all
qed

lemma restart_ok:
  assumes "cluster_ok q c" and "i < length (cl_nodes c)"
    and "newNodeID uuid \<notin> set (cl_ids c)" and "newNodeID uuid \<noteq> ''''"
  shows "cluster_ok q ((put i (new_cnode q lease reapEvery (cl_db c) uuid) (cl_db c) c)
      \<lparr>cl_ids := newNodeID uuid # cl_ids c\<rparr>)"
proof -
  let ?n = "new_cnode q lease reapEvery (cl_db c) uuid"
  have id: "cid ?n = newNodeID uuid" by (simp add: new_cnode_def NewPostgresElection_def)
  have fits: "node_fits q terms row ?n" for terms row
    using Server_New_ok [OF cluster_node(2) [OF assms(1,2)], of reapEvery]
    by (auto simp: node_fits_def new_cnode_def NewPostgresElection_def current_def server_ok_def
        Server_New_def leadership_defs)
  have "cid (cl_nodes c ! j) \<noteq> cid ?n" if "j < length (cl_nodes c)" for j
    using cluster_node(3) [OF assms(1) that] assms(3) id by metis
  moreover have "distinct (map snd (cl_terms c))" using assms(1) by (simp add: cluster_ok_def)
  ultimately show ?thesis
    using cluster_ok_put [OF assms(1,2) cluster_node(2) [OF assms(1,2)], of "[]" ?n "newNodeID uuid # cl_ids c"]
      fits id assms(4) by (simp add: put_def)
qed

lemma cluster_step_ok:
  assumes "engine_ok (q_store q)" and "cluster_ok q c" and "cluster_step q lease c c'"
  shows "cluster_ok q c' \<and> reaches (q_store q) op_ok (cl_db c) (cl_db c')"
  using assms(3)
proof cases
  case (leave_loop i n)
  then have "node_fits q (cl_terms c) (leadership (cl_db c)) (n\<lparr>cn_phase := Returned\<rparr>)"
    using cluster_node(1) [OF assms(2), of i] by (auto simp: node_fits_def current_def)
  with leave_loop show ?thesis using node_only_ok [OF assms(2) leave_loop(2)] by simp
next
  case (sweep i n tm x d res)
  then have d: "d = apply_op (q_store q) x (OpReap tm) (cl_db c)" by (simp add: Queue_ReapExpiredLeases_def)
  have "reaches (q_store q) op_ok (cl_db c) d" unfolding d by (rule reaches_op) simp
  moreover have "leadership d = leadership (cl_db c)" unfolding d by (rule apply_op_leadership) simp
  ultimately show ?thesis
    using call_ok [OF assms(1,2) sweep(2), of d n] cluster_node(1) [OF assms(2) sweep(2)] sweep(1,3) by simp
next
  case (signal i n)
  let ?s = "(cn_srv n)\<lparr>sv_stop := True\<rparr>"
  have "line_live ?s = line_live (cn_srv n)" "streams_ok ?s = streams_ok (cn_srv n)"
      "reign_live ?s = reign_live (cn_srv n)" "current (n\<lparr>cn_srv := ?s\<rparr>) = current n"
    by (simp_all add: line_live_def streams_ok_def reign_live_def current_def split: run_phase.split)
  then have "node_fits q (cl_terms c) (leadership (cl_db c)) (n\<lparr>cn_srv := ?s\<rparr>)"
    using signal cluster_node(1) [OF assms(2), of i] by (simp add: node_fits_def)
  with signal show ?thesis using node_only_ok [OF assms(2) signal(2)] by simp
qed (use assms(1,2) serve_ok campaign_ok crown_ok hold_ok demote_lock_ok demote_cancel_ok resigning_ok restart_ok in simp_all)

lemma cluster_run:
  assumes "engine_ok (q_store q)" and "cluster_ok q c" and "(cluster_step q lease)\<^sup>*\<^sup>* c c'"
  shows "cluster_ok q c' \<and> reaches (q_store q) op_ok (cl_db c) (cl_db c')"
  using assms(3)
proof (induction rule: rtranclp_induct)
  case (step c1 c2)
  with cluster_step_ok [OF assms(1), of c1 lease c2] show ?case by (auto intro: reaches_trans)
qed (use assms(2) in simp)

section \<open>A node of a cluster is a server\<close>

abbreviation node_view :: "cluster \<Rightarrow> nat \<Rightarrow> server" where
  "node_view c i \<equiv> with_db (cl_db c) (cn_srv (cl_nodes c ! i))"

lemma others_step:
  assumes "reaches (q_store q) op_ok d d'"
  shows "server_step q (with_db d s) (with_db d' s)"
proof -
  from assms obtain xs where xs: "d' = run_ops (q_store q) xs d" "\<forall>x \<in> set xs. op_ok (snd x)"
    by (auto simp: reaches_def)
  from server_step.others [OF xs(2), of q "with_db d s"] show ?thesis by (simp add: with_db_def xs(1))
qed

text \<open>Whichever node takes the step, for each node it is a step of a server, or a start.\<close>

lemma cluster_step_view:
  assumes "engine_ok (q_store q)" and "cluster_ok q c" and "cluster_step q lease c c'"
    and "k < length (cl_nodes c)"
  shows "server_step q (node_view c k) (node_view c' k) \<or> (\<exists>r. node_view c' k = Server_New r (cl_db c'))"
proof -
  have db: "server_step q (node_view c k) (node_view c' k)"
    if "cn_srv (cl_nodes c' ! k) = cn_srv (cl_nodes c ! k)"
    using others_step cluster_step_ok [OF assms(1-3)] that by simp
  have same: "with_db d (s\<lparr>sv_lead := l, sv_ctxs := h\<rparr>) = (with_db d s)\<lparr>sv_lead := l, sv_ctxs := h\<rparr>"
      "with_db d (s\<lparr>sv_lead := l, sv_cancel := x\<rparr>) = (with_db d s)\<lparr>sv_lead := l, sv_cancel := x\<rparr>"
      "with_db d (s\<lparr>sv_ctxs := h, sv_cancel := x\<rparr>) = (with_db d s)\<lparr>sv_ctxs := h, sv_cancel := x\<rparr>"
      "with_db d (s\<lparr>sv_stop := b\<rparr>) = (with_db d s)\<lparr>sv_stop := b\<rparr>" for d s l h x b
    by (simp_all add: with_db_def)
  from assms(3) show ?thesis
  proof cases
    case (serve i n s)
    then have "serving_step job_op q (node_view c i) s" by simp
    then have "server_step q (node_view c i) s"
      using serving_mono [of job_op q _ _ op_ok] job_op_ok by (blast intro: server_step.serve)
    with serve db show ?thesis by (cases "k = i") (simp_all add: put_def)
  next
    case (crown i n tm l h)
    have "server_step q (node_view c i) ((node_view c i)\<lparr>sv_lead := l, sv_ctxs := h\<rparr>)"
      using crown cluster_node(1) [OF assms(2), of i] by (intro server_step.win) (auto simp: node_fits_def)
    with crown db show ?thesis by (cases "k = i") (simp_all add: put_def same)
  next
    case (demote_lock i n b l cancel)
    have "server_step q (node_view c i) ((node_view c i)\<lparr>sv_lead := l, sv_cancel := cancel\<rparr>)"
      using demote_lock cluster_node(1) [OF assms(2), of i] by (intro server_step.lose) (auto simp: node_fits_def)
    with demote_lock db show ?thesis by (cases "k = i") (simp_all add: put_def same)
  next
    case (demote_cancel i n b x)
    then have "server_step q (node_view c i)
        ((node_view c i)\<lparr>sv_ctxs := cancel_ctx x (sv_ctxs (node_view c i)), sv_cancel := None\<rparr>)"
      by (intro server_step.cancel) simp
    with demote_cancel db show ?thesis by (cases "k = i") (simp_all add: put_def same)
  next
    case (signal i n)
    from signal db server_step.stop [of q "node_view c i"] show ?thesis
      by (cases "k = i") (simp_all add: put_def same)
  next
    case (restart i uuid reapEvery)
    moreover have "with_db (cl_db c) (Server_New reapEvery (cl_db c)) = Server_New reapEvery (cl_db c)"
      by (simp add: with_db_def Server_New_def split: prod.split)
    ultimately show ?thesis using db by (cases "k = i") (auto simp: put_def new_cnode_def)
  qed ((rule disjI1, rule db, simp add: put_def nth_list_update
      del: postgres_Campaign.simps postgres_Hold.simps)+)
qed

lemma cluster_size: "cluster_step q lease c c' \<Longrightarrow> length (cl_nodes c') = length (cl_nodes c)"
  by (induction rule: cluster_step.induct) (simp_all add: put_def del: postgres_Campaign.simps postgres_Hold.simps)

lemma cluster_run_size: "(cluster_step q lease)\<^sup>*\<^sup>* c c' \<Longrightarrow> length (cl_nodes c') = length (cl_nodes c)"
  by (induction rule: rtranclp_induct) (simp_all add: cluster_size)

lemma new_cluster_view:
  "i < length uuids \<Longrightarrow> node_view (new_cluster q lease r d uuids) i = Server_New r d"
  by (simp add: new_cluster_def new_cnode_def with_db_def Server_New_def split: prod.split)

lemma cluster_run_view:
  assumes "engine_ok (q_store q)" and "db_ok d" and "distinct (map newNodeID uuids)"
    and "'''' \<notin> newNodeID ` set uuids" and "i < length uuids"
    and "(cluster_step q lease)\<^sup>*\<^sup>* (new_cluster q lease r d uuids) c"
  shows "\<exists>d0 r0. db_ok d0 \<and> (server_step q)\<^sup>*\<^sup>* (Server_New r0 d0) (node_view c i)"
  using assms(6)
proof (induction rule: rtranclp_induct)
  case base
  have "(server_step q)\<^sup>*\<^sup>* (Server_New r d) (node_view (new_cluster q lease r d uuids) i)"
    by (simp only: new_cluster_view [OF assms(5)] rtranclp.rtrancl_refl)
  with assms(2) show ?case by blast
next
  case (step c1 c2)
  note ok = cluster_run [OF assms(1) new_cluster_ok [OF assms(2-4)] step(1), THEN conjunct1]
  have "i < length (cl_nodes c1)" using cluster_run_size [OF step(1)] assms(5) by (simp add: new_cluster_def)
  with cluster_step_view [OF assms(1) ok step(2)] consider
      (on) "server_step q (node_view c1 i) (node_view c2 i)"
    | (anew) r1 where "node_view c2 i = Server_New r1 (cl_db c2)" by blast
  then show ?case
  proof cases
    case on
    with step.IH show ?thesis by (blast intro: rtranclp.rtrancl_into_rtrancl)
  next
    case anew
    moreover have "db_ok (cl_db c2)" using cluster_step_ok [OF assms(1) ok step(2)] by (simp add: cluster_ok_def)
    ultimately show ?thesis by (metis rtranclp.rtrancl_refl)
  qed
qed

section \<open>A candidate that finds the lease lapsed leads two steps later\<close>

lemma takes_over:
  assumes "i < length (cl_nodes c)" and "n = cl_nodes c ! i" and "cn_phase n = Campaigning"
    and "engine_ok (q_store (pe_q (cn_elect n)))" and "lr_lease_expires_at (leadership (cl_db c)) < t"
    and "fits64 (lr_term (leadership (cl_db c)) + 1)" and "fits64 (make_interval (pe_lease (cn_elect n)))"
    and "ts_in_range (t + make_interval (pe_lease (cn_elect n)))"
    and "row = \<lparr>lr_leader_id = cid n, lr_term = lr_term (leadership (cl_db c)) + 1,
           lr_lease_expires_at = t + make_interval (pe_lease (cn_elect n))\<rparr>"
  shows "\<exists>c' s. (cluster_step q lease)\<^sup>*\<^sup>* c c' \<and> leadership (cl_db c') = row
    \<and> cl_nodes c' = (cl_nodes c)[i := n\<lparr>cn_srv := s, cn_phase := Holding\<rparr>]
    \<and> Leading (sv_lead s) \<and> Term (sv_lead s) = lr_term row"
proof -
  let ?d = "(cl_db c)\<lparr>leadership := row\<rparr>" and ?res = "Some (Inr (lr_term row)) :: (goerror + int) option"
  obtain l h where crowned: "becomeLead (lr_term row) (sv_lead (cn_srv n), sv_ctxs (cn_srv n)) = (l, h)"
    by fastforce
  have "postgres_Campaign (cn_elect n) [poll_at t] (cl_db c) = (?d, ?res)"
    using campaign_answer [OF assms(4), of "call_at t" "cl_db c" "pe_lease (cn_elect n)" "cid n"] assms(5-9)
    by (simp add: poll_at_def meet_def Queue_Campaign_def)
  from cluster_step.campaign [OF assms(1-3) _ _ this, of q lease] obtain c1 where
    c1: "cluster_step q lease c c1" "cl_db c1 = ?d" "cl_nodes c1 = (cl_nodes c)[i := n\<lparr>cn_phase := Elected (lr_term row)\<rparr>]"
    by (auto simp: poll_at_def put_def after_campaign_def)
  from cluster_step.crown [of i c1 _ "lr_term row" l h q lease] c1(3) assms(1) crowned
  have c2: "cluster_step q lease c1 (put i (n\<lparr>cn_srv := (cn_srv n)\<lparr>sv_lead := l, sv_ctxs := h\<rparr>, cn_phase := Holding\<rparr>)
      (cl_db c1) c1)" by simp
  have "Leading l" "Term l = lr_term row" using crowned by (auto simp: leadership_defs)
  moreover have "(cluster_step q lease)\<^sup>*\<^sup>* c (put i (n\<lparr>cn_srv := (cn_srv n)\<lparr>sv_lead := l, sv_ctxs := h\<rparr>, cn_phase := Holding\<rparr>)
      (cl_db c1) c1)" using c1(1) c2 by simp
  ultimately show ?thesis using c1(2,3)
    by (intro exI [of _ "put i (n\<lparr>cn_srv := (cn_srv n)\<lparr>sv_lead := l, sv_ctxs := h\<rparr>, cn_phase := Holding\<rparr>) (cl_db c1) c1"]
        exI [of _ "(cn_srv n)\<lparr>sv_lead := l, sv_ctxs := h\<rparr>"]) (simp add: put_def)
qed

text \<open>Two nodes, each of which finds the lease of its predecessor lapsed: both believe they lead.\<close>

definition two_nodes :: cluster where
  "two_nodes = new_cluster queue1 (30 * second) second db1 [''node-one-uuid'', ''node-two-uuid'']"

lemma two_leaders:
  "\<exists>c. (cluster_step queue1 (30 * second))\<^sup>*\<^sup>* two_nodes c \<and> lr_term (leadership (cl_db c)) = 3
     \<and> cn_phase (cl_nodes c ! 0) = Holding \<and> cn_elect (cl_nodes c ! 0) = election1
     \<and> Leading (sv_lead (cn_srv (cl_nodes c ! 0))) \<and> Term (sv_lead (cn_srv (cl_nodes c ! 0))) = 2
     \<and> Leading (sv_lead (cn_srv (cl_nodes c ! 1))) \<and> Term (sv_lead (cn_srv (cl_nodes c ! 1))) = 3"
proof -
  define one where "one = new_cnode queue1 (30 * second) second db1 ''node-one-uuid''"
  define two where "two = new_cnode queue1 (30 * second) second db1 ''node-two-uuid''"
  have start: "cl_nodes two_nodes = [one, two]" "leadership (cl_db two_nodes) = leadership db1"
    by (simp_all add: two_nodes_def new_cluster_def one_def two_def)
  have idle: "cn_phase one = Campaigning" "cn_phase two = Campaigning" "cn_elect one = election1"
      "pe_lease (cn_elect two) = 30 * second" "engine_ok (q_store (pe_q (cn_elect two)))"
    by (simp_all add: one_def two_def new_cnode_def NewPostgresElection_def election1_def queue1_def)
  have lease: "make_interval (30 * second) = 30000000" by (simp add: make_interval_def second_def)
  note small = fits64_def ts_in_range_def lease
  let ?run = "(cluster_step queue1 (30 * second))\<^sup>*\<^sup>*"
    and ?row1 = "\<lparr>lr_leader_id = cid one, lr_term = 2, lr_lease_expires_at = 70000000\<rparr>"
    and ?row2 = "\<lparr>lr_leader_id = cid two, lr_term = 3, lr_lease_expires_at = 110000000\<rparr>"
  have row: "leadership db1 = \<lparr>lr_leader_id = ''n1'', lr_term = 1, lr_lease_expires_at = 30000000\<rparr>"
    by (simp add: db1_def)
  have "\<exists>c' s. ?run two_nodes c' \<and> leadership (cl_db c') = ?row1
      \<and> cl_nodes c' = (cl_nodes two_nodes)[0 := one\<lparr>cn_srv := s, cn_phase := Holding\<rparr>]
      \<and> Leading (sv_lead s) \<and> Term (sv_lead s) = lr_term ?row1"
    by (rule takes_over [where t = 40000000]) (simp_all only: start idle row, simp_all add: small)
  then obtain c1 s1 where c1: "?run two_nodes c1" "leadership (cl_db c1) = ?row1"
      "cl_nodes c1 = [one\<lparr>cn_srv := s1, cn_phase := Holding\<rparr>, two]" "Leading (sv_lead s1)" "Term (sv_lead s1) = 2"
    by (simp only: start) force
  have "\<exists>c' s. ?run c1 c' \<and> leadership (cl_db c') = ?row2
      \<and> cl_nodes c' = (cl_nodes c1)[1 := two\<lparr>cn_srv := s, cn_phase := Holding\<rparr>]
      \<and> Leading (sv_lead s) \<and> Term (sv_lead s) = lr_term ?row2"
    by (rule takes_over [where t = 80000000]) (simp_all only: c1(2,3) idle, simp_all add: small)
  then obtain c2 s2 where c2: "?run c1 c2" "leadership (cl_db c2) = ?row2"
      "cl_nodes c2 = [one\<lparr>cn_srv := s1, cn_phase := Holding\<rparr>, two\<lparr>cn_srv := s2, cn_phase := Holding\<rparr>]"
      "Leading (sv_lead s2)" "Term (sv_lead s2) = 3"
    by (simp only: c1(3)) force
  have "(cluster_step queue1 (30 * second))\<^sup>*\<^sup>* two_nodes c2" using c1(1) c2(1) by (rule rtranclp_trans)
  with c1(4,5) c2(2-) idle(3) show ?thesis by (intro exI [of _ c2]) simp
qed

section \<open>What holds of every cluster\<close>

lemma two_nodes_run:
  assumes "(cluster_step queue1 (30 * second))\<^sup>*\<^sup>* two_nodes c"
  shows "length (cl_nodes c) = 2"
    and "(cluster_step queue1 (30 * second))\<^sup>*\<^sup>*
      (new_cluster queue1 (30 * second) second db1 [''node-one-uuid'', ''node-two-uuid'']) c"
    and "distinct (map newNodeID [''node-one-uuid'', ''node-two-uuid''])"
    and "'''' \<notin> newNodeID ` set [''node-one-uuid'', ''node-two-uuid'']"
  using assms cluster_run_size [OF assms] by (simp_all add: two_nodes_def new_cluster_def newNodeID_def)

lemma term_owner: "distinct (map snd ts) \<Longrightarrow> (a, tm) \<in> set ts \<Longrightarrow> (b, tm) \<in> set ts \<Longrightarrow> a = b"
  by (induction ts) force+

lemma leaders_terms:
  assumes "cluster_ok q c" and "i < length (cl_nodes c)" and "Leading (sv_lead (cn_srv (cl_nodes c ! i)))"
  shows "(cid (cl_nodes c ! i), Term (sv_lead (cn_srv (cl_nodes c ! i)))) \<in> set (cl_terms c)"
    and "lr_leader_id (leadership (cl_db c)) = cid (cl_nodes c ! i) \<Longrightarrow>
      lr_term (leadership (cl_db c)) = Term (sv_lead (cn_srv (cl_nodes c ! i)))"
  using cluster_node(1) [OF assms(1,2)] assms(3) by (auto simp: node_fits_def current_def)







end
