(* ===== verification/Strconv.thy ===== *)
theory Strconv
  imports Config
begin

text \<open>
  What the commands use of the packages \<open>strconv\<close> and \<open>fmt\<close>: decimal numbers, written (\<open>%d\<close>) and
  read (\<open>Atoi\<close>), and the UTF-8 bytes of the marks in their output.
\<close>

fun digits :: "nat \<Rightarrow> string" where
  "digits n = (if n < 10 then [char_of (48 + n)] else digits (n div 10) @ [char_of (48 + n mod 10)])"

declare digits.simps [simp del]

definition format_d :: "int \<Rightarrow> string" where
  "format_d i = (if i < 0 then CHR ''-'' # digits (nat (- i)) else digits (nat i))"

definition digit_value :: "char \<Rightarrow> nat option" where
  "digit_value c = (let n = of_char c in if 48 \<le> n \<and> n \<le> 57 then Some (n - 48) else None)"

fun parse_digits :: "nat \<Rightarrow> string \<Rightarrow> nat option" where
  "parse_digits acc [] = Some acc"
| "parse_digits acc (c # cs) = (case digit_value c of
      None \<Rightarrow> None
    | Some v \<Rightarrow> parse_digits (10 * acc + v) cs)"

definition parse_nat :: "string \<Rightarrow> nat option" where
  "parse_nat s = (if s = '''' then None else parse_digits 0 s)"

text \<open>\<open>strconv.Atoi\<close> on a 64-bit platform; \<^const>\<open>None\<close> stands for either of its errors.\<close>

definition strconv_Atoi :: "string \<Rightarrow> int option" where
  "strconv_Atoi s = (let neg = (s \<noteq> [] \<and> hd s = CHR ''-'');
       rest = (if s \<noteq> [] \<and> (hd s = CHR ''-'' \<or> hd s = CHR ''+'') then tl s else s) in
     case parse_nat rest of
       None \<Rightarrow> None
     | Some n \<Rightarrow> let i = (if neg then - int n else int n) in if fits64 i then Some i else None)"

definition check_mark :: string where "check_mark = bytes [0xE2, 0x9C, 0x93]"
definition cross_mark :: string where "cross_mark = bytes [0xE2, 0x9C, 0x97]"
definition arrow_mark :: string where "arrow_mark = bytes [0xE2, 0x86, 0x92]"

section \<open>Reading what was written\<close>

lemma digit_value_digit: "d < 10 \<Longrightarrow> digit_value (char_of (48 + d)) = Some d"
  by (simp add: digit_value_def Let_def)

lemma parse_digits_append:
  "parse_digits acc (xs @ ys) = (case parse_digits acc xs of None \<Rightarrow> None | Some a \<Rightarrow> parse_digits a ys)"
  by (induction acc xs rule: parse_digits.induct) (auto split: option.split)

lemma parse_digits_digits: "parse_digits 0 (digits n) = Some n"
proof (induction n rule: digits.induct)
  case (1 n)
  then show ?case
    by (subst digits.simps) (simp add: digit_value_digit parse_digits_append)
qed

lemma digits_hd: "digits n \<noteq> [] \<and> digit_value (hd (digits n)) \<noteq> None"
proof (induction n rule: digits.induct)
  case (1 n)
  then show ?case by (subst (1 2) digits.simps) (simp add: digit_value_digit)
qed

lemma digits_no_sign: "hd (digits n) \<noteq> CHR ''-''" "hd (digits n) \<noteq> CHR ''+''"
  using digits_hd [of n] by (auto simp: digit_value_def)

lemma parse_nat_digits: "parse_nat (digits n) = Some n"
  using digits_hd [of n] by (simp add: parse_nat_def parse_digits_digits)

lemma Atoi_format_d: "fits64 i \<Longrightarrow> strconv_Atoi (format_d i) = Some i"
  using digits_hd [of "nat i"] digits_no_sign [of "nat i"]
  by (auto simp: strconv_Atoi_def format_d_def parse_nat_digits Let_def)

lemma format_d_inj: "format_d i = format_d j \<Longrightarrow> i = j"
proof -
  have "(if hd s = CHR ''-'' then - int (the (parse_nat (tl s))) else int (the (parse_nat s))) = i"
    if "s = format_d i" for s i
    using digits_no_sign [of "nat i"] that by (auto simp: format_d_def parse_nat_digits)
  then show "format_d i = format_d j \<Longrightarrow> i = j" by metis
qed

end
