(* ===== verification/Worker.thy ===== *)
theory Worker
  imports Elections Strconv Config
begin

text \<open>
  \<open>cmd/worker/main.go\<close>: the worker process. Its goroutines are the read loop of the stream in
  progress, a handler per job started, and a heartbeat per handler; each definition below is
  what one of them does between two points where it blocks, and \<open>worker_step\<close> interleaves them.
  What is printed is returned as lines where the code does nothing else with it.
\<close>

section \<open>Constants and the cancel-cause contexts\<close>

definition reconnectDelay :: dur where "reconnectDelay = 2 * second"
definition defaultLeaseFor :: dur where "defaultLeaseFor = 30 * second"

definition errLeaseLost :: goerror where "errLeaseLost = ErrText ''lease lost''"

text \<open>
  The contexts made by \<open>context.WithCancelCause\<close>, by number: \<^const>\<open>None\<close> while live, then the
  first cause it was cancelled with. Cancelling with nil gives \<open>context.Canceled\<close>.
\<close>

type_synonym cause_ctxs = "goerror option list"

definition cancel_cause :: "nat \<Rightarrow> goerror option \<Rightarrow> cause_ctxs \<Rightarrow> cause_ctxs" where
  "cancel_cause c cause cs = (if c < length cs \<and> cs ! c = None
     then cs[c := Some (case cause of None \<Rightarrow> ErrCanceled | Some e \<Rightarrow> e)] else cs)"

definition Cause :: "cause_ctxs \<Rightarrow> nat \<Rightarrow> goerror option" where
  "Cause cs c = (if c < length cs then cs ! c else None)"

text \<open>The parent's cancellation reaches every context still live.\<close>

definition cancel_parent :: "cause_ctxs \<Rightarrow> cause_ctxs" where
  "cancel_parent cs = map (\<lambda>x. case x of None \<Rightarrow> Some ErrCanceled | Some e \<Rightarrow> Some e) cs"

section \<open>The worker\<close>

text \<open>A handler: the arguments of \<open>work\<close> and what it computes before it calls \<open>handle\<close>.\<close>

record handler =
  hn_ctx :: nat
  hn_job :: Job
  hn_lease :: dur
  hn_attempt :: int

text \<open>A heartbeat goroutine.\<close>

record beat =
  bt_ctx :: nat
  bt_jobID :: string
  bt_interval :: dur

text \<open>
  The struct (the connections by their address, the stream by its number), and the process
  around it: what has been sent, on which stream, newest last; the signal context; the job
  contexts and goroutines; whether the read loop is running, and its locals \<open>jobID\<close> and \<open>cancel\<close>.
\<close>

record worker =
  wk_id :: string
  wk_conns :: "string list"
  wk_next :: nat
  wk_stream :: nat
  wk_sent :: "(nat \<times> WorkerMessage) list"
  wk_ctx_err :: bool
  wk_ctxs :: cause_ctxs
  wk_handlers :: "handler list"
  wk_beats :: "beat list"
  wk_reading :: bool
  wk_jobID :: string
  wk_cancel :: "nat option"

definition shortID :: "string \<Rightarrow> string" where
  "shortID i = (if length i > 8 then take 8 i else i)"

text \<open>\<open>uuid\<close> is the text of the fresh identifier.\<close>

definition new_worker :: "string \<Rightarrow> string list \<Rightarrow> worker" where
  "new_worker uuid addrs = \<lparr>wk_id = take 8 uuid, wk_conns = addrs, wk_next = 0, wk_stream = 0,
     wk_sent = [], wk_ctx_err = False, wk_ctxs = [], wk_handlers = [], wk_beats = [],
     wk_reading = False, wk_jobID = '''', wk_cancel = None\<rparr>"

text \<open>\<open>main\<close> dials every address, which connects lazily, and exits at the first that is refused.\<close>

fun dial_all :: "(string \<Rightarrow> goerror option) \<Rightarrow> string list \<Rightarrow> string + string list" where
  "dial_all dial [] = Inr []"
| "dial_all dial (addr # addrs) = (case dial addr of
      Some err \<Rightarrow> Inl (''[Worker] Fatal: could not dial '' @ addr @ '': '' @ errorString (\<lambda>_. '''') err)
    | None \<Rightarrow> (case dial_all dial addrs of Inl m \<Rightarrow> Inl m | Inr conns \<Rightarrow> Inr (addr # conns)))"

text \<open>\<open>main\<close> up to its loop: the connections and the worker, or the message it exits with.\<close>

definition worker_boot :: "environ \<Rightarrow> (string \<Rightarrow> goerror option) \<Rightarrow> string \<Rightarrow> string + worker" where
  "worker_boot getenv dial uuid = (let addrs = ServerAddrs getenv in
     case dial_all dial addrs of Inl m \<Rightarrow> Inl m | Inr conns \<Rightarrow> Inr (new_worker uuid conns))"

text \<open>A remainder by zero panics: no value.\<close>

definition client :: "worker \<Rightarrow> string option" where
  "client w = (if wk_conns w = [] then None else Some (wk_conns w ! (wk_next w mod length (wk_conns w))))"

text \<open>\<open>err\<close> is what \<open>stream.Send\<close> returns.\<close>

definition send :: "goerror option \<Rightarrow> WorkerMessage \<Rightarrow> worker \<Rightarrow> worker" where
  "send err msg w = (case err of
      Some _ \<Rightarrow> w
    | None \<Rightarrow> w\<lparr>wk_sent := wk_sent w @ [(wk_stream w, msg)]\<rparr>)"

section \<open>Working on a job\<close>

definition work_lease :: "int32 \<Rightarrow> dur" where
  "work_lease leaseSeconds = (let lease = sint leaseSeconds * second in
     if lease \<le> 0 then defaultLeaseFor else lease)"

definition beat_interval :: "dur \<Rightarrow> dur" where
  "beat_interval lease = (let interval = go_div lease 3 in if interval \<le> 0 then second else interval)"

text \<open>
  \<open>handle\<close>: the job types that answer at once, and for the others how long the work takes and
  what comes of it, where \<open>taken\<close> says that the \<open>select\<close> took the context's \<open>Done\<close>.
\<close>

definition simulated :: "Job \<Rightarrow> int \<Rightarrow> goerror option option" where
  "simulated job attempt =
     (if job_Type job = ''flaky'' then
        Some (if attempt \<le> 2
          then Some (ErrText (''transient failure (simulated), attempt '' @ format_d attempt)) else None)
      else if job_Type job = ''doomed'' then Some (Some (ErrText ''this job never succeeds (simulated)''))
      else None)"

definition work_time :: "Job \<Rightarrow> dur" where
  "work_time job = (if job_Type job = ''slow'' then 45 * second else 500 * millisecond)"

definition handle :: "Job \<Rightarrow> int \<Rightarrow> bool \<Rightarrow> goerror option" where
  "handle job attempt taken = (case simulated job attempt of
      Some res \<Rightarrow> res
    | None \<Rightarrow> if taken then Some ErrCanceled else None)"

text \<open>\<open>work\<close> up to its call of \<open>handle\<close>, with the heartbeat it starts.\<close>

definition work_begin :: "nat \<Rightarrow> Job \<Rightarrow> int32 \<Rightarrow> worker \<Rightarrow> worker" where
  "work_begin ctx job leaseSeconds w = (let lease = work_lease leaseSeconds in
     w\<lparr>wk_handlers := \<lparr>hn_ctx = ctx, hn_job = job, hn_lease = lease,
           hn_attempt = sint (job_RetryCount job) + 1\<rparr> # wk_handlers w,
       wk_beats := \<lparr>bt_ctx = ctx, bt_jobID = job_Id job, bt_interval = beat_interval lease\<rparr> # wk_beats w\<rparr>)"

text \<open>\<open>work\<close> from the return of \<open>handle\<close>: the cancellation, then the report or silence.\<close>

definition work_report :: "Job \<Rightarrow> goerror option \<Rightarrow> WorkerMessage" where
  "work_report job err = (case err of
      None \<Rightarrow> WorkerMessage_Completed \<lparr>completed_JobId = job_Id job\<rparr>
    | Some e \<Rightarrow> WorkerMessage_Failed \<lparr>failed_JobId = job_Id job,
        failed_ErrorMessage = errorString (\<lambda>_. '''') e\<rparr>)"

definition work_end :: "bool \<Rightarrow> goerror option \<Rightarrow> handler \<Rightarrow> worker \<Rightarrow> worker" where
  "work_end taken send_err h w0 = (let
       err = handle (hn_job h) (hn_attempt h) taken;
       w = w0\<lparr>wk_ctxs := cancel_cause (hn_ctx h) None (wk_ctxs w0),
              wk_handlers := remove1 h (wk_handlers w0)\<rparr> in
     if Cause (wk_ctxs w) (hn_ctx h) = Some errLeaseLost then w
     else send send_err (work_report (hn_job h) err) w)"

text \<open>
  A turn of \<open>beatLease\<close>: it takes the context's \<open>Done\<close> and returns, or a tick and sends, and
  returns if that fails. A ready tick may be taken when the context is done as well.
\<close>

definition beat_done :: "beat \<Rightarrow> worker \<Rightarrow> worker" where
  "beat_done b w = w\<lparr>wk_beats := remove1 b (wk_beats w)\<rparr>"

definition beat_tick :: "goerror option \<Rightarrow> beat \<Rightarrow> worker \<Rightarrow> worker" where
  "beat_tick send_err b w = (case send_err of
      Some _ \<Rightarrow> beat_done b w
    | None \<Rightarrow> send None (WorkerMessage_Heartbeat \<lparr>beat_JobId = bt_jobID b\<rparr>) w)"

section \<open>The read loop\<close>

text \<open>Reading a field of a nil job panics: no value. The handler's goroutine begins with \<open>work_begin\<close>.\<close>

definition start :: "Assigned \<Rightarrow> worker \<Rightarrow> (worker \<times> string \<times> nat) option" where
  "start assigned w = (case assigned_Job assigned of
      None \<Rightarrow> None
    | Some job \<Rightarrow>
        let ctx = length (wk_ctxs w);
            w1 = w\<lparr>wk_ctxs := wk_ctxs w @ [if wk_ctx_err w then Some ErrCanceled else None]\<rparr> in
        Some (work_begin ctx job (assigned_LeaseSeconds assigned) w1, job_Id job, ctx))"

text \<open>Opening the stream and greeting; the locals of the read loop are fresh.\<close>

definition run_open :: "goerror option \<Rightarrow> goerror option \<Rightarrow> worker \<Rightarrow> worker \<times> goerror option" where
  "run_open stream_err hello_err w = (case stream_err of
      Some err \<Rightarrow> (w, Some err)
    | None \<Rightarrow> (case hello_err of
        Some err \<Rightarrow> (w\<lparr>wk_stream := Suc (wk_stream w)\<rparr>, Some err)
      | None \<Rightarrow> ((send None (WorkerMessage_Hello \<lparr>hello_WorkerId = wk_id w\<rparr>)
            (w\<lparr>wk_stream := Suc (wk_stream w)\<rparr>))\<lparr>wk_reading := True, wk_jobID := '''', wk_cancel := None\<rparr>, None)))"

text \<open>The body of the loop for a message received.\<close>

definition run_recv :: "ServerMessage \<Rightarrow> worker \<Rightarrow> worker option" where
  "run_recv msg w = (case msg of
      ServerMessage_Assigned m \<Rightarrow> (case start m w of
          None \<Rightarrow> None
        | Some (w1, jobID, cancel) \<Rightarrow> Some (w1\<lparr>wk_jobID := jobID, wk_cancel := Some cancel\<rparr>))
    | ServerMessage_Lost m \<Rightarrow> (case wk_cancel w of
          Some c \<Rightarrow> if lost_JobId m = wk_jobID w
            then Some (w\<lparr>wk_ctxs := cancel_cause c (Some errLeaseLost) (wk_ctxs w),
                         wk_jobID := '''', wk_cancel := None\<rparr>)
            else Some w
        | None \<Rightarrow> Some w)
    | ServerMessage_Result m \<Rightarrow>
        if result_JobId m = wk_jobID w then Some (w\<lparr>wk_jobID := '''', wk_cancel := None\<rparr>) else Some w
    | ServerMessage_Unset \<Rightarrow> Some w)"

definition logResult :: "string \<Rightarrow> Result \<Rightarrow> string list" where
  "logResult workerID r = (let job = ''[Worker '' @ workerID @ ''] Job ['' @ shortID (result_JobId r) in
     case result_Outcome r of
       OUTCOME_ACCEPTED \<Rightarrow> [job @ ''] done '' @ check_mark]
     | OUTCOME_RETRYING \<Rightarrow> [job @ ''] failed '' @ arrow_mark @ '' re-queued with backoff'']
     | OUTCOME_DEAD_LETTERED \<Rightarrow> [job @ ''] failed '' @ arrow_mark @ '' moved to DLQ '' @ cross_mark]
     | OUTCOME_REFUSED \<Rightarrow> [job @ ''] refused: '' @ result_Error r]
     | OUTCOME_UNSPECIFIED \<Rightarrow> [])"

section \<open>main\<close>

text \<open>
  The bookkeeping of \<open>main\<close> after \<open>run\<close> came back: \<open>err\<close> is its error, which it always has, and the
  next stream tries the following server unless the process is shutting down.
\<close>

definition after_run :: "goerror option \<Rightarrow> worker \<Rightarrow> worker" where
  "after_run err w = (if err \<noteq> None \<and> \<not> wk_ctx_err w then w\<lparr>wk_next := Suc (wk_next w)\<rparr> else w)"

text \<open>\<open>wait\<close> comes back after \<open>d\<close>, or as soon as the context ends if that is earlier.\<close>

definition wait :: "dur option \<Rightarrow> dur \<Rightarrow> dur" where
  "wait ctx_ends d = (case ctx_ends of None \<Rightarrow> max 0 d | Some t \<Rightarrow> min (max 0 t) (max 0 d))"

text \<open>
  The rounds of the loop that end with an error, as far as the choice of the server goes: the
  servers tried. The list says for each round whether the signal came during it.
\<close>

fun main_rounds :: "bool list \<Rightarrow> worker \<Rightarrow> string option list" where
  "main_rounds [] w = []"
| "main_rounds (signalled # rs) w = (if wk_ctx_err w then []
     else client w # main_rounds rs (after_run (Some (ErrText ''stream ended'')) (w\<lparr>wk_ctx_err := signalled\<rparr>)))"

section \<open>The process\<close>

text \<open>
  What a step is seen as from outside: a message received, a handler that ended and what came of
  it, or something of no consequence for others.
\<close>

datatype worker_event = Receives ServerMessage | Finishes handler "goerror option" | Internal

inductive worker_step :: "worker \<Rightarrow> worker_event \<Rightarrow> worker \<Rightarrow> bool" where
  open_ok: "\<not> wk_reading w \<Longrightarrow> \<not> wk_ctx_err w \<Longrightarrow> client w \<noteq> None \<Longrightarrow>
    run_open stream_err hello_err w = (w', None) \<Longrightarrow> worker_step w Internal w'"
| open_fails: "\<not> wk_reading w \<Longrightarrow> \<not> wk_ctx_err w \<Longrightarrow> client w \<noteq> None \<Longrightarrow>
    run_open stream_err hello_err w = (w', Some err) \<Longrightarrow> worker_step w Internal (after_run (Some err) w')"
| receive: "wk_reading w \<Longrightarrow> run_recv msg w = Some w' \<Longrightarrow> worker_step w (Receives msg) w'"
| recv_fails: "wk_reading w \<Longrightarrow> worker_step w Internal (after_run (Some err) (w\<lparr>wk_reading := False\<rparr>))"
| finish: "h \<in> set (wk_handlers w) \<Longrightarrow>
    taken \<longrightarrow> Cause (wk_ctxs w) (hn_ctx h) \<noteq> None \<Longrightarrow>
    worker_step w (Finishes h (handle (hn_job h) (hn_attempt h) taken)) (work_end taken send_err h w)"
| tick: "b \<in> set (wk_beats w) \<Longrightarrow> worker_step w Internal (beat_tick send_err b w)"
| beat_ends: "b \<in> set (wk_beats w) \<Longrightarrow> Cause (wk_ctxs w) (bt_ctx b) \<noteq> None \<Longrightarrow>
    worker_step w Internal (beat_done b w)"
| signal: "worker_step w Internal (w\<lparr>wk_ctx_err := True, wk_ctxs := cancel_parent (wk_ctxs w)\<rparr>)"

inductive worker_run :: "worker \<Rightarrow> worker \<Rightarrow> bool" where
  idle: "worker_run w w"
| later: "worker_run w0 w \<Longrightarrow> worker_step w ev w' \<Longrightarrow> worker_run w0 w'"

end
