(* ===== verification/Worker_Guarantees.thy ===== *)
theory Worker_Guarantees
  imports Worker
begin

text \<open>
  What a worker process guarantees in every interleaving of its read loop, its handlers and its
  heartbeats, how its timing fits the server's lease, and how it goes from server to server.
\<close>

section \<open>The contexts of the jobs\<close>

lemma length_cancel [simp]:
  "length (cancel_cause c x cs) = length cs" "length (cancel_parent cs) = length cs"
  by (simp_all add: cancel_cause_def cancel_parent_def)

lemma Cause_cancel:
  "c < length cs \<Longrightarrow> Cause (cancel_cause c x cs) c =
     (case Cause cs c of None \<Rightarrow> Some (case x of None \<Rightarrow> ErrCanceled | Some e \<Rightarrow> e) | Some e \<Rightarrow> Some e)"
  by (auto simp: Cause_def cancel_cause_def split: option.split)

lemma Cause_cancel_other: "c \<noteq> c' \<Longrightarrow> Cause (cancel_cause c x cs) c' = Cause cs c'"
  by (auto simp: Cause_def cancel_cause_def)

lemma errLeaseLost_neq [simp]: "errLeaseLost \<noteq> ErrCanceled" "ErrCanceled \<noteq> errLeaseLost"
  by (simp_all add: errLeaseLost_def ErrCanceled_def)

section \<open>The invariant of the process\<close>

fun is_report :: "WorkerMessage \<Rightarrow> bool" where
  "is_report (WorkerMessage_Completed m) = True"
| "is_report (WorkerMessage_Failed m) = True"
| "is_report m = False"

text \<open>
  Every goroutine belongs to a context made for its job, and to a different one for each job
  started; the read loop's cancel function is that of the job it names; and every context has
  at most one of: a handler at work, a report sent.
\<close>

definition worker_ok :: "worker \<Rightarrow> bool" where
  "worker_ok w \<longleftrightarrow>
     list_all (\<lambda>h. hn_ctx h < length (wk_ctxs w)) (wk_handlers w)
   \<and> list_all (\<lambda>b. bt_ctx b < length (wk_ctxs w)) (wk_beats w)
   \<and> distinct (map hn_ctx (wk_handlers w))
   \<and> (\<forall>h \<in> set (wk_handlers w). \<forall>b \<in> set (wk_beats w).
        hn_ctx h = bt_ctx b \<longrightarrow> job_Id (hn_job h) = bt_jobID b)
   \<and> (\<forall>c. wk_cancel w = Some c \<longrightarrow> c < length (wk_ctxs w)
        \<and> (\<forall>h \<in> set (wk_handlers w). hn_ctx h = c \<longrightarrow> job_Id (hn_job h) = wk_jobID w)
        \<and> (\<forall>b \<in> set (wk_beats w). bt_ctx b = c \<longrightarrow> bt_jobID b = wk_jobID w))
   \<and> length (filter (is_report \<circ> snd) (wk_sent w)) + length (wk_handlers w) \<le> length (wk_ctxs w)"

lemma worker_ok_new: "worker_ok (new_worker uuid addrs)"
  by (simp add: worker_ok_def new_worker_def)

lemma worker_ok_send:
  "worker_ok w \<Longrightarrow> \<not> is_report msg \<Longrightarrow> worker_ok (send err msg w)"
  by (auto simp: worker_ok_def send_def split: option.split)

lemma worker_ok_after_run [simp]: "worker_ok (after_run err w) = worker_ok w"
  by (simp add: worker_ok_def after_run_def)

lemma worker_ok_reading [simp]: "worker_ok (w\<lparr>wk_reading := b\<rparr>) = worker_ok w"
  by (simp add: worker_ok_def)

lemma worker_ok_free: "worker_ok w \<Longrightarrow> worker_ok (w\<lparr>wk_jobID := '''', wk_cancel := None\<rparr>)"
  by (simp add: worker_ok_def)

lemma worker_ok_cancel: "worker_ok w \<Longrightarrow> worker_ok (w\<lparr>wk_ctxs := cancel_cause c x (wk_ctxs w)\<rparr>)"
  by (simp add: worker_ok_def)

lemma worker_ok_open:
  assumes "worker_ok w" and "run_open stream_err hello_err w = (w', err)"
  shows "worker_ok w'"
proof -
  have streamed: "worker_ok (w\<lparr>wk_stream := n\<rparr>)" for n using assms(1) by (simp add: worker_ok_def)
  have "worker_ok ((send None m v)\<lparr>wk_reading := True, wk_jobID := '''', wk_cancel := None\<rparr>)"
    if "worker_ok v" "\<not> is_report m" for m v
    using worker_ok_free [OF worker_ok_send [OF that, of None]] by (simp add: worker_ok_def)
  with assms streamed show ?thesis by (auto simp: run_open_def split: option.splits)
qed

lemma worker_ok_start:
  assumes "worker_ok w" and "start m w = Some (w1, jobID, c)"
  shows "worker_ok (w1\<lparr>wk_jobID := jobID, wk_cancel := Some c\<rparr>)"
  using assms
  by (auto simp: worker_ok_def start_def work_begin_def Let_def list_all_iff less_Suc_eq
      split: option.splits) (metis less_irrefl_nat)+

lemma worker_ok_recv: "worker_ok w \<Longrightarrow> run_recv msg w = Some w' \<Longrightarrow> worker_ok w'"
  using worker_ok_free [OF worker_ok_cancel, of w] worker_ok_free [of w]
  by (auto simp: run_recv_def dest: worker_ok_start
      split: ServerMessage.splits option.splits if_splits)

lemma worker_ok_end:
  assumes "worker_ok w" and "h \<in> set (wk_handlers w)"
  shows "worker_ok (work_end taken err h w)"
proof -
  let ?w = "w\<lparr>wk_ctxs := cancel_cause (hn_ctx h) None (wk_ctxs w),
      wk_handlers := remove1 h (wk_handlers w)\<rparr>"
  have sub: "set (remove1 h (wk_handlers w)) \<subseteq> set (wk_handlers w)" by (rule set_remove1_subset)
  have dist: "distinct (map hn_ctx (remove1 h (wk_handlers w)))"
    using assms(1) by (auto simp: worker_ok_def distinct_map intro: inj_on_subset [of hn_ctx "set (wk_handlers w)"])
  have len: "Suc (length (remove1 h (wk_handlers w))) = length (wk_handlers w)"
    using assms(2) length_pos_if_in_set [OF assms(2)] by (simp add: length_remove1)
  have ok: "worker_ok ?w" and room: "length (filter (is_report \<circ> snd) (wk_sent ?w))
      + Suc (length (wk_handlers ?w)) \<le> length (wk_ctxs ?w)"
    using assms(1) sub dist len by (auto simp: worker_ok_def list_all_iff dest!: set_mp [OF sub])
  have "worker_ok (send err msg ?w)" for msg
    using ok room by (auto simp: worker_ok_def send_def split: option.split)
  with ok show ?thesis by (simp add: work_end_def Let_def)
qed

lemma worker_ok_beat: "worker_ok w \<Longrightarrow> worker_ok (beat_tick err b w) \<and> worker_ok (beat_done b w)"
proof -
  assume ok: "worker_ok w"
  have sub: "set (remove1 b (wk_beats w)) \<subseteq> set (wk_beats w)" by (rule set_remove1_subset)
  with ok have "worker_ok (beat_done b w)"
    by (auto simp: worker_ok_def beat_done_def list_all_iff dest!: set_mp [OF sub])
  with worker_ok_send [OF ok] show ?thesis by (auto simp: beat_tick_def split: option.split)
qed

lemma worker_ok_step: "worker_step w ev w' \<Longrightarrow> worker_ok w \<Longrightarrow> worker_ok w'"
proof (induction rule: worker_step.induct)
  case (signal w)
  then show ?case by (simp add: worker_ok_def)
qed (auto dest: worker_ok_open worker_ok_recv worker_ok_end worker_ok_beat)

lemma worker_ok_run: "worker_run (new_worker uuid addrs) w \<Longrightarrow> worker_ok w"
  by (induction "new_worker uuid addrs" w rule: worker_run.induct)
     (auto intro: worker_ok_new dest: worker_ok_step)

section \<open>Losing a job\<close>

lemma run_recv_lost:
  assumes "run_recv (ServerMessage_Lost \<lparr>lost_JobId = j\<rparr>) w = Some w'"
  shows "wk_handlers w' = wk_handlers w"
    and "wk_cancel w = Some c \<Longrightarrow> wk_jobID w = j \<Longrightarrow>
      wk_ctxs w' = cancel_cause c (Some errLeaseLost) (wk_ctxs w)"
    and "wk_cancel w = None \<or> wk_jobID w \<noteq> j \<Longrightarrow> wk_ctxs w' = wk_ctxs w"
  using assms by (auto simp: run_recv_def split: option.splits if_splits)

lemma work_end_silent:
  assumes "Cause (wk_ctxs w) (hn_ctx h) = Some errLeaseLost" and "hn_ctx h < length (wk_ctxs w)"
  shows "wk_sent (work_end taken err h w) = wk_sent w"
  using assms by (simp add: work_end_def Let_def Cause_cancel)

text \<open>The jobs of the runs below, and the messages that assign and lose them.\<close>

definition job_a :: Job where
  "job_a = \<lparr>job_Id = ''a'', job_Type = ''normal'', job_Payload = '''', job_Status = '''', job_Error = '''',
     job_RetryCount = 0, job_MaxRetries = 3\<rparr>"

definition assign :: "string \<Rightarrow> ServerMessage" where
  "assign j = ServerMessage_Assigned \<lparr>assigned_Job = Some (job_a\<lparr>job_Id := j\<rparr>), assigned_LeaseSeconds = 30\<rparr>"

definition w_start :: worker where
  "w_start = new_worker ''worker-1-uuid'' [''s1:4040'', ''s2:4040'']"

definition w_open :: worker where
  "w_open = fst (run_open None None w_start)"

definition w_busy :: worker where
  "w_busy = the (run_recv (assign ''a'') w_open)"

lemmas worker_ops = w_start_def w_open_def w_busy_def new_worker_def run_open_def run_recv_def start_def
  work_begin_def assign_def send_def job_a_def Let_def

lemma run_w_open: "worker_run (new_worker ''worker-1-uuid'' [''s1:4040'', ''s2:4040'']) w_open"
proof -
  have "worker_step w_start Internal w_open"
    by (rule worker_step.open_ok [where stream_err = None and hello_err = None])
       (simp_all add: worker_ops client_def)
  with worker_run.idle show ?thesis unfolding w_start_def by (rule worker_run.later)
qed

lemma run_w_busy: "worker_run (new_worker ''worker-1-uuid'' [''s1:4040'', ''s2:4040'']) w_busy"
  by (rule worker_run.later [OF run_w_open], rule worker_step.receive [where msg = "assign ''a''"])
     (simp_all add: worker_ops)

text \<open>
  C27: Being told that a job is lost stops that job and no other. In every state a worker can
  reach, the message that job \<open>j\<close> is lost leaves the context of every handler of another job as
  it was; when the read loop has \<open>j\<close> in its slot and the handler is still at work, the handler's
  context is cancelled as a lost lease, and then the handler sends no report, whatever its
  work comes to.
\<close>

theorem lost_stops_its_job:
  assumes "worker_run (new_worker uuid addrs) w"
    and "run_recv (ServerMessage_Lost \<lparr>lost_JobId = j\<rparr>) w = Some w'" and "h \<in> set (wk_handlers w)"
  shows "h \<in> set (wk_handlers w')
    \<and> (job_Id (hn_job h) \<noteq> j \<longrightarrow> Cause (wk_ctxs w') (hn_ctx h) = Cause (wk_ctxs w) (hn_ctx h))
    \<and> (wk_cancel w = Some (hn_ctx h) \<and> wk_jobID w = j \<and> Cause (wk_ctxs w) (hn_ctx h) = None \<longrightarrow>
         Cause (wk_ctxs w') (hn_ctx h) = Some errLeaseLost
       \<and> (\<forall>taken err. wk_sent (work_end taken err h w') = wk_sent w'))"
proof -
  note ok = worker_ok_run [OF assms(1)] and lost = run_recv_lost [OF assms(2)]
  have ctx: "hn_ctx h < length (wk_ctxs w)"
    using ok assms(3) by (auto simp: worker_ok_def list_all_iff)
  have other: "Cause (wk_ctxs w') (hn_ctx h) = Cause (wk_ctxs w) (hn_ctx h)" if "job_Id (hn_job h) \<noteq> j"
  proof (cases "wk_cancel w = None \<or> wk_jobID w \<noteq> j")
    case False
    then obtain c where c: "wk_cancel w = Some c" "wk_jobID w = j" by auto
    with ok assms(3) that have "c \<noteq> hn_ctx h" by (auto simp: worker_ok_def)
    with lost(2) [OF c] show ?thesis by (simp add: Cause_cancel_other)
  qed (simp add: lost(3))
  have mine: "Cause (wk_ctxs w') (hn_ctx h) = Some errLeaseLost \<and> length (wk_ctxs w') = length (wk_ctxs w)"
    if "wk_cancel w = Some (hn_ctx h)" "wk_jobID w = j" "Cause (wk_ctxs w) (hn_ctx h) = None"
    using that ctx lost(2) [OF that(1,2)] by (simp add: Cause_cancel)
  with other ctx work_end_silent [of w' h] show ?thesis by (simp add: lost(1) assms(3))
qed

theorem lost_stops_its_job_witness:
  "\<exists>w'. run_recv (ServerMessage_Lost \<lparr>lost_JobId = ''a''\<rparr>) w_busy = Some w'
    \<and> Cause (wk_ctxs w') (hn_ctx (hd (wk_handlers w_busy))) = Some errLeaseLost"
proof -
  obtain w' where w': "run_recv (ServerMessage_Lost \<lparr>lost_JobId = ''a''\<rparr>) w_busy = Some w'"
    by (simp add: worker_ops)
  have "hd (wk_handlers w_busy) \<in> set (wk_handlers w_busy)" by (simp add: worker_ops)
  from lost_stops_its_job [OF run_w_busy w' this] w' show ?thesis
    by (simp add: worker_ops Cause_def)
qed

section \<open>Reporting\<close>

text \<open>
  In every state a worker can reach, it has sent at most one report for each assignment it
  received, with a handler at work counted as a report to come. A handler that finishes
  cancels its context, so that its heartbeat stops, and sends exactly one message, \<open>Completed\<close>
  when its work succeeded and \<open>Failed\<close> with the error's text when it did not, unless the lease
  was lost, and then nothing.
\<close>

lemma reports_at_most_once:
  assumes "worker_run (new_worker uuid addrs) w"
  shows "length (filter (is_report \<circ> snd) (wk_sent w)) + length (wk_handlers w) \<le> length (wk_ctxs w)
    \<and> (\<forall>h \<in> set (wk_handlers w). \<forall>taken.
         Cause (wk_ctxs (work_end taken None h w)) (hn_ctx h) \<noteq> None
       \<and> wk_sent (work_end taken None h w) = wk_sent w @
           (if Cause (wk_ctxs w) (hn_ctx h) = Some errLeaseLost then []
            else [(wk_stream w, case handle (hn_job h) (hn_attempt h) taken of
                None \<Rightarrow> WorkerMessage_Completed \<lparr>completed_JobId = job_Id (hn_job h)\<rparr>
              | Some e \<Rightarrow> WorkerMessage_Failed \<lparr>failed_JobId = job_Id (hn_job h),
                  failed_ErrorMessage = errorString (\<lambda>_. '''') e\<rparr>)]))"
proof -
  note ok = worker_ok_run [OF assms]
  have sent: "Cause (wk_ctxs (work_end taken None h w)) (hn_ctx h) \<noteq> None
       \<and> wk_sent (work_end taken None h w) = wk_sent w @
           (if Cause (wk_ctxs w) (hn_ctx h) = Some errLeaseLost then []
            else [(wk_stream w, work_report (hn_job h) (handle (hn_job h) (hn_attempt h) taken))])"
    if "h \<in> set (wk_handlers w)" for h taken
  proof -
    from ok that have "hn_ctx h < length (wk_ctxs w)" by (auto simp: worker_ok_def list_all_iff)
    then show ?thesis by (auto simp: work_end_def Let_def Cause_cancel send_def split: option.split)
  qed
  show ?thesis
    using ok sent unfolding work_report_def worker_ok_def by blast
qed

section \<open>From server to server\<close>

text \<open>A worker that starts has a connection for each address, in their order.\<close>

lemma dial_all_conns: "dial_all dial addrs = Inr conns \<Longrightarrow> conns = addrs \<and> (\<forall>a \<in> set addrs. dial a = None)"
  by (induction addrs arbitrary: conns) (auto split: option.splits sum.splits)

text \<open>A worker that boots has a connection for every address listed, in the order of the setting.\<close>

lemma worker_boot_conns:
  "worker_boot getenv dial uuid = Inr w \<Longrightarrow>
     wk_conns w = ServerAddrs getenv \<and> \<not> wk_ctx_err w \<and> (\<forall>a \<in> set (ServerAddrs getenv). dial a = None)"
  by (auto simp: worker_boot_def Let_def new_worker_def dest: dial_all_conns split: sum.splits)

lemma main_rounds_eq:
  assumes "wk_conns w \<noteq> []" and "\<not> wk_ctx_err w"
  shows "main_rounds (replicate k False) w =
    map (\<lambda>i. Some (wk_conns w ! ((wk_next w + i) mod length (wk_conns w)))) [0..<k]"
  using assms
proof (induction k arbitrary: w)
  case (Suc k)
  have "main_rounds (replicate k False) (w\<lparr>wk_ctx_err := False, wk_next := Suc (wk_next w)\<rparr>) =
      map (\<lambda>i. Some (wk_conns w ! ((Suc (wk_next w) + i) mod length (wk_conns w)))) [0..<k]"
    using Suc.IH [of "w\<lparr>wk_ctx_err := False, wk_next := Suc (wk_next w)\<rparr>"] Suc.prems by simp
  with Suc.prems show ?case
    by (simp add: after_run_def client_def map_upt_Suc del: upt_Suc)
qed simp

lemma mod_shift_surj:
  assumes "j < n"
  shows "\<exists>i < n. (a + i) mod n = (j :: nat)"
proof (intro exI conjI)
  let ?i = "(j + (n - a mod n)) mod n"
  from assms show "?i < n" by simp
  have "(a + ?i) mod n = (a mod n + (j + (n - a mod n))) mod n" by (metis mod_add_left_eq mod_add_right_eq)
  also have "a mod n + (j + (n - a mod n)) = j + n" using assms mod_le_divisor [of n a] by linarith
  finally show "(a + ?i) mod n = j" using assms by simp
qed

text \<open>
  C34: A worker finds a server that is up: over as many failed streams as there are servers,
  from any point, it tries every server of its list, one per stream, and in the order of the
  list. Without an address the first attempt to open a stream panics, and once a signal has
  come no further server is tried.
\<close>

theorem rotation_tries_all:
  "(wk_conns w \<noteq> [] \<and> \<not> wk_ctx_err w \<longrightarrow>
      set (main_rounds (replicate (length (wk_conns w)) False) w) = Some ` set (wk_conns w)
    \<and> (\<forall>k < length (wk_conns w). main_rounds (replicate (Suc k) False) w ! k =
         Some (wk_conns w ! ((wk_next w + k) mod length (wk_conns w)))))
   \<and> (wk_conns w = [] \<and> \<not> wk_ctx_err w \<longrightarrow> hd (main_rounds [sig] w) = None)
   \<and> (wk_ctx_err w \<longrightarrow> main_rounds rs w = [])
   \<and> length (main_rounds (True # rs) w) \<le> 1"
proof (intro conjI impI)
  let ?n = "length (wk_conns w)"
  assume "wk_conns w \<noteq> [] \<and> \<not> wk_ctx_err w"
  note eq = main_rounds_eq [OF conjunct1 [OF this] conjunct2 [OF this]]
  have "Some (wk_conns w ! j) \<in> set (main_rounds (replicate ?n False) w)" if "j < ?n" for j
    using mod_shift_surj [OF that, of "wk_next w"] by (force simp: eq)
  then have "Some ` set (wk_conns w) \<subseteq> set (main_rounds (replicate ?n False) w)"
    by (auto simp: set_conv_nth)
  moreover have "set (main_rounds (replicate ?n False) w) \<subseteq> Some ` set (wk_conns w)"
    by (auto simp: eq intro!: imageI nth_mem mod_less_divisor)
  ultimately show "set (main_rounds (replicate ?n False) w) = Some ` set (wk_conns w)" by (rule equalityI [rotated])
  show "\<forall>k < ?n. main_rounds (replicate (Suc k) False) w ! k = Some (wk_conns w ! ((wk_next w + k) mod ?n))"
    by (simp add: eq del: replicate_Suc upt_Suc)
next
  show "main_rounds rs w = []" if "wk_ctx_err w" using that by (cases rs) auto
  show "length (main_rounds (True # rs) w) \<le> 1" by (cases rs) (auto simp: after_run_def)
qed (simp add: client_def)

theorem rotation_tries_all_witness:
  "set (main_rounds [False, False] w_start) = {Some ''s1:4040'', Some ''s2:4040''}"
proof -
  have "wk_conns w_start = [''s1:4040'', ''s2:4040'']" "\<not> wk_ctx_err w_start"
    by (simp_all add: w_start_def new_worker_def)
  with conjunct1 [OF conjunct1 [OF rotation_tries_all [of w_start False "[]"], THEN mp]] show ?thesis
    by (simp add: numeral_2_eq_2)
qed

section \<open>Heartbeats after the report, and two jobs at once\<close>

definition w_reported :: worker where
  "w_reported = work_end False None (hd (wk_handlers w_busy)) w_busy"

lemma run_w_reported: "worker_run (new_worker ''worker-1-uuid'' [''s1:4040'', ''s2:4040'']) w_reported"
  unfolding w_reported_def
  by (rule worker_run.later [OF run_w_busy], rule worker_step.finish) (simp_all add: worker_ops)

text \<open>
  Cancelling a job's context before the report does not keep its heartbeat from following
  the report: the heartbeat's \<open>select\<close> may take a tick that is ready together with the
  cancellation, and a worker can reach a state in which it has sent the heartbeat of a job
  right after that job's completion.
\<close>

lemma beat_after_report:
  "\<exists>w. worker_run (new_worker ''worker-1-uuid'' [''s1:4040'', ''s2:4040'']) w
    \<and> map snd (wk_sent w) = [WorkerMessage_Hello \<lparr>hello_WorkerId = ''worker-1''\<rparr>,
        WorkerMessage_Completed \<lparr>completed_JobId = ''a''\<rparr>,
        WorkerMessage_Heartbeat \<lparr>beat_JobId = ''a''\<rparr>]"
proof -
  let ?b = "hd (wk_beats w_reported)"
  have sel: "wk_beats w_reported = [?b]" "bt_jobID ?b = ''a''" "map snd (wk_sent w_reported) =
      [WorkerMessage_Hello \<lparr>hello_WorkerId = ''worker-1''\<rparr>, WorkerMessage_Completed \<lparr>completed_JobId = ''a''\<rparr>]"
    by (simp_all add: w_reported_def worker_ops work_end_def work_report_def handle_def simulated_def
        Cause_def cancel_cause_def)
  then have "?b \<in> set (wk_beats w_reported)" by (metis list.set_intros(1))
  from worker_run.later [OF run_w_reported worker_step.tick [OF this, of None]]
  have "worker_run (new_worker ''worker-1-uuid'' [''s1:4040'', ''s2:4040'']) (beat_tick None ?b w_reported)" .
  moreover have "map snd (wk_sent (beat_tick None ?b w_reported)) =
      map snd (wk_sent w_reported) @ [WorkerMessage_Heartbeat \<lparr>beat_JobId = ''a''\<rparr>]"
    by (simp add: beat_tick_def send_def sel(2))
  ultimately show ?thesis using sel(3) by (metis append_Cons append_Nil)
qed

text \<open>
  A worker that reconnects while a handler is at work says hello and may be given a second
  job, so two handlers run at once; the slot then holds the second, and nothing can cancel the
  first but a shutdown.
\<close>

definition w_back :: worker where
  "w_back = fst (run_open None None (after_run (Some (ErrText ''EOF'')) (w_busy\<lparr>wk_reading := False\<rparr>)))"

lemma two_jobs_at_once:
  "\<exists>w. worker_run (new_worker ''worker-1-uuid'' [''s1:4040'', ''s2:4040'']) w
    \<and> map (\<lambda>h. job_Id (hn_job h)) (wk_handlers w) = [''b'', ''a''] \<and> wk_ctxs w = [None, None]
    \<and> wk_cancel w = Some 1"
proof (intro exI conjI)
  let ?w = "the (run_recv (assign ''b'') w_back)"
  let ?cut = "after_run (Some (ErrText ''EOF'')) (w_busy\<lparr>wk_reading := False\<rparr>)"
  have cut: "worker_step w_busy Internal ?cut" by (rule worker_step.recv_fails) (simp add: worker_ops)
  have reopen: "worker_step ?cut Internal w_back" unfolding w_back_def
    by (rule worker_step.open_ok [where stream_err = None and hello_err = None])
       (simp_all add: worker_ops after_run_def client_def)
  have again: "worker_step w_back (Receives (assign ''b'')) ?w"
    by (rule worker_step.receive) (simp_all add: w_back_def worker_ops after_run_def)
  show "worker_run (new_worker ''worker-1-uuid'' [''s1:4040'', ''s2:4040'']) ?w"
    by (rule worker_run.later [OF worker_run.later [OF worker_run.later [OF run_w_busy cut] reopen] again])
qed (simp_all add: w_back_def worker_ops after_run_def)

end
