(* ===== verification/Delivery.thy ===== *)
theory Delivery
  imports Server_Node Worker_Guarantees
begin

text \<open>
  The way of a job between the two programs: from the row that a pass of the dispatcher claims,
  over the delivery channel, the stream and the worker's read loop to a running handler; and
  from the end of the handler back over the stream to the settled row and the printed result.
\<close>

section \<open>From the row to the handler\<close>

lemma leased_row:
  assumes "db_ok d" and "leased_as d job w"
  obtains r where "job_of d (job_Id job) = Some r" and "jr_state r = ''processing''" and "jr_worker_id r = w"
    and "job = job_of_row r" and "sint (job_RetryCount job) = jr_retry_count r"
proof -
  from assms(2) obtain r where r: "job_of d (job_Id job) = Some r" "jr_state r = ''processing''"
      "jr_worker_id r = w" "job = job_of_row r"
    by (auto simp: leased_as_def elim: holds_leaseE)
  then have "fits32 (jr_retry_count r)" using db_ok_row [OF assms(1)] by (simp add: job_ok_def)
  then have "sint (job_RetryCount (job_of_row r)) = jr_retry_count r"
    by (simp add: job_of_row_def sint_of_fits32 del: of_int_sint)
  with r show thesis by (intro that [of r]) simp_all
qed

lemma Push_db_ok:
  assumes "engine_ok (q_store q)" and "push_env_ok op_ok env" and "hub_ok hb" and "db_ok (hb_db hb)"
  shows "db_ok (hb_db (fst (Push q b env hb)))"
proof (rule reaches_ok [OF assms(1,4) any_ops.Push_reaches_ok [OF assms(2)]])
  show "\<forall>x \<in> set (ds_waiters (hb_dis hb)). wt_workerID x \<noteq> ''''"
    using assms(3) by (simp add: line_ok_def list_all_iff)
qed

lemma served_worker:
  assumes "served q ch d w"
  obtains job where "ch (wt_deliveries w) = [assignment q job]" and "leased_as d job (wt_workerID w)"
  using assms by (auto simp: served_def split: list.splits option.splits)

lemma deliver_turn:
  assumes "hb_chans hb (wt_deliveries (sm_waiter st)) = a # as" and "tn_send_err env = None"
  shows "stream_turn q env GotDelivery st hb =
    Goes (st\<lparr>sm_sent := sm_sent st @ [ServerMessage_Assigned a]\<rparr>)
      (hb\<lparr>hb_chans := (hb_chans hb)(wt_deliveries (sm_waiter st) := as)\<rparr>)"
  using assms by (simp add: stream_turn_def send_then_def)

text \<open>What the worker makes of an assignment: the read loop remembers the job, a handler and its heartbeat run.\<close>

lemma receive_assignment:
  "\<exists>wk'. run_recv (ServerMessage_Assigned (assignment q job)) wk = Some wk' \<and> wk_jobID wk' = job_Id job
    \<and> wk_handlers wk' = \<lparr>hn_ctx = length (wk_ctxs wk), hn_job = job,
          hn_lease = work_lease (assigned_LeaseSeconds (assignment q job)),
          hn_attempt = sint (job_RetryCount job) + 1\<rparr> # wk_handlers wk
    \<and> wk_beats wk' = \<lparr>bt_ctx = length (wk_ctxs wk), bt_jobID = job_Id job,
          bt_interval = beat_interval (work_lease (assigned_LeaseSeconds (assignment q job)))\<rparr> # wk_beats wk"
  by (simp add: run_recv_def start_def work_begin_def assignment_def Let_def)


text \<open>A line of one waiting worker, and the pass that serves it.\<close>

definition hub_line :: hub where
  "hub_line = \<lparr>hb_dis = \<lparr>ds_waiters = [\<lparr>wt_workerID = ''w2'', wt_deliveries = 0\<rparr>], ds_timer = NilTimer\<rparr>,
     hb_chans = (\<lambda>_. []), hb_db = db1\<rparr>"

lemma hub_line_served: "ds_waiters (hb_dis (fst (Push queue1 False (push_at 5000) hub_line))) = []"
  by (simp add: Push_def pushLocked_def hub_line_def Queue_Dequeue_def DequeueJob_def exec_ok
      stmt_state_def stmt_result_def sql_dequeue_def queue1_def seq_engine_def visible_def update_jobs_def
      db1_def job1_def job2_def claim_row_def after_interval_def job_of_row_def ts_in_range_def fits64_def
      DefaultLeaseFor_def second_def make_interval_def meet_def armLocked_def chan_send_def)


section \<open>From the handler to the settled row\<close>

lemma finished_handler_reports:
  assumes "worker_ok wk" and "h \<in> set (wk_handlers wk)" and "Cause (wk_ctxs wk) (hn_ctx h) \<noteq> Some errLeaseLost"
  shows "wk_sent (work_end taken None h wk) =
    wk_sent wk @ [(wk_stream wk, work_report (hn_job h) (handle (hn_job h) (hn_attempt h) taken))]"
proof -
  have "hn_ctx h < length (wk_ctxs wk)" using assms(1,2) by (auto simp: worker_ok_def list_all_iff)
  with assms(3) show ?thesis
    by (auto simp: work_end_def Let_def send_def Cause_cancel Cause_def cancel_cause_def split: if_splits)
qed

text \<open>The completion of a job that is held, as the stream's turn sees it.\<close>

lemma completion_turn:
  assumes "engine_ok (q_store q)" and "db_ok (hb_db hb)" and "hub_ok hb"
    and "holder_of (hb_db hb) i = Some (wt_workerID (sm_waiter st))" and "wt_workerID (sm_waiter st) \<noteq> ''''"
    and "hb_chans hb (wt_deliveries (sm_waiter st)) = []"
    and "wt_deliveries (sm_waiter st) \<notin> wt_deliveries ` set (ds_waiters (hb_dis hb))"
    and "flt (env_call (tn_db env)) = NoFault" and "env_before (tn_db env) = []"
    and "tn_send_err env = None" and "push_env_ok op_ok (tn_push env)"
  shows "\<exists>hb'. stream_turn q env (GotMessage (WorkerMessage_Completed \<lparr>completed_JobId = i\<rparr>)) st hb =
      Goes (st\<lparr>sm_sent := sm_sent st @ [result_msg (q_store q) i OUTCOME_ACCEPTED None]\<rparr>) hb'
    \<and> distinct (map jr_id (jobs (hb_db hb')))
    \<and> (\<exists>r. job_of (hb_db hb') i = Some r \<and> jr_state r = ''done'')"
proof -
  let ?w = "sm_waiter st"
  from Complete_held [OF assms(2,4,8)] obtain d1 r where
    fin: "Complete (env_call (tn_db env)) i (wt_workerID ?w) (hb_db hb) = (d1, None)"
      "job_of d1 i = Some r" "jr_state r = ''done''" by blast
  let ?hb = "hb\<lparr>hb_db := d1\<rparr>"
  have d1: "db_ok d1"
    using apply_op_ok [OF assms(1,2), of "OpComplete i (wt_workerID ?w)" "env_call (tn_db env)"] fin(1) by simp
  have reg: "snd (register q (tn_push env) ?w ?hb) = None"
    using register_never_blocks [of ?hb ?w q "tn_push env"] assms(3,5-7) by simp
  define hb' where "hb' = fst (register q (tn_push env) ?w ?hb)"
  have "\<forall>x \<in> insert ?w (set (ds_waiters (hb_dis ?hb))). wt_workerID x \<noteq> ''''"
    using assms(3,5) by (simp add: line_ok_def list_all_iff)
  from any_ops.register_reaches_ok [OF assms(11) this, of q]
  have reach: "reaches (q_store q) op_ok d1 (hb_db hb')" by (simp add: hb'_def)
  have "distinct (map jr_id (jobs d1))" using d1 by (simp add: db_ok_def)
  moreover have "settled r" using fin(3) by (simp add: settled_def)
  ultimately have "job_of (hb_db hb') i = Some r"
    using reach run_ops_settled [OF assms(1) _ fin(2)] by (auto simp: reaches_def)
  moreover have "distinct (map jr_id (jobs (hb_db hb')))"
    using reaches_ok [OF assms(1) d1 reach] by (simp add: db_ok_def)
  moreover have "register q (tn_push env) ?w ?hb = (hb', None)"
    using reg by (simp add: hb'_def prod_eq_iff)
  ultimately show ?thesis
    using fin assms(9,10)
    by (simp add: stream_turn_def answer_def meet_def Queue_Complete_def send_then_def register_then_def Let_def)
qed


text \<open>A worker named \<open>w1\<close> that is working on job \<open>j1\<close>.\<close>

definition w_on_j1 :: worker where
  "w_on_j1 = the (run_recv (assign ''j1'') (fst (run_open None None (new_worker ''w1'' [''s1:4040'']))))"

lemma run_w_on_j1: "worker_run (new_worker ''w1'' [''s1:4040'']) w_on_j1"
proof -
  let ?w = "new_worker ''w1'' [''s1:4040'']"
  have "worker_step ?w Internal (fst (run_open None None ?w))"
    by (rule worker_step.open_ok [where stream_err = None and hello_err = None])
       (simp_all add: worker_ops client_def)
  note opened = worker_run.later [OF worker_run.idle this]
  have "worker_step (fst (run_open None None ?w)) (Receives (assign ''j1'')) w_on_j1"
    by (rule worker_step.receive) (simp_all add: worker_ops w_on_j1_def)
  with opened show ?thesis by (rule worker_run.later)
qed


end
