(* ===== verification/Whole_System.thy ===== *)
theory Whole_System
  imports Delivery
begin

text \<open>
  Workers and a server as one system: the messages a worker receives have been sent to it, the
  reports a server or any other node acts on have been made by a worker. The invariant says that
  what is sent is in the table, that what runs or has finished was sent, and that what is done has
  been reported by a worker whose handler had succeeded.
\<close>

section \<open>The system\<close>

text \<open>
  The server in detail, the workers that have ever been started, and two histories: the
  assignments sent, with the worker each was sent to, and the jobs whose handler has returned
  without an error, with the worker. A worker that crashed takes no further step.
\<close>

record system =
  sy_server :: server
  sy_workers :: "worker list"
  sy_told :: "(string \<times> Assigned) list"
  sy_finished :: "(string \<times> Job) list"

definition reported :: "worker list \<Rightarrow> string \<Rightarrow> string \<Rightarrow> bool" where
  "reported ws i w \<longleftrightarrow> list_ex (\<lambda>wk. wk_id wk = w
     \<and> WorkerMessage_Completed \<lparr>completed_JobId = i\<rparr> \<in> snd ` set (wk_sent wk)) ws"

text \<open>The operations of a node whose clients are these workers.\<close>

definition honest :: "worker list \<Rightarrow> store_op \<Rightarrow> bool" where
  "honest ws op \<longleftrightarrow> op_ok op \<and> (case op of OpComplete i w \<Rightarrow> reported ws i w | _ \<Rightarrow> True)"

definition assignments :: "server \<Rightarrow> (string \<times> Assigned) list" where
  "assignments s = [(wt_workerID (sm_waiter st), a). st \<leftarrow> sv_streams s, ServerMessage_Assigned a \<leftarrow> sm_sent st]"

definition finished_by :: "string \<Rightarrow> worker_event \<Rightarrow> (string \<times> Job) list" where
  "finished_by w ev = (case ev of Finishes h None \<Rightarrow> [(w, hn_job h)] | _ \<Rightarrow> [])"

text \<open>
  The steps: the server serves; its leadership changes or it is told to stop; its reaper, its
  election or another node works on the database; it is started again; a worker takes a step;
  a worker is started.
\<close>

inductive system_step :: "Queue \<Rightarrow> system \<Rightarrow> system \<Rightarrow> bool" for q :: Queue where
  serve: "serving_step (honest (sy_workers y)) q (sy_server y) s \<Longrightarrow>
    system_step q y (y\<lparr>sy_server := s, sy_told := assignments s @ sy_told y\<rparr>)"
| lead: "server_step q (sy_server y) s \<Longrightarrow> sv_hub s = sv_hub (sy_server y) \<Longrightarrow>
    sv_streams s = sv_streams (sy_server y) \<Longrightarrow> system_step q y (y\<lparr>sy_server := s\<rparr>)"
| others: "\<forall>x \<in> set xs. honest (sy_workers y) (snd x) \<Longrightarrow>
    d = run_ops (q_store q) xs (hb_db (sv_hub (sy_server y))) \<Longrightarrow>
    system_step q y (y\<lparr>sy_server := (sy_server y)\<lparr>sv_hub := (sv_hub (sy_server y))\<lparr>hb_db := d\<rparr>\<rparr>\<rparr>)"
| restart: "system_step q y (y\<lparr>sy_server := Server_New reapEvery (hb_db (sv_hub (sy_server y)))\<rparr>)"
| work: "i < length (sy_workers y) \<Longrightarrow> w = sy_workers y ! i \<Longrightarrow> worker_step w ev w' \<Longrightarrow>
    (\<forall>a. ev = Receives (ServerMessage_Assigned a) \<longrightarrow> (wk_id w, a) \<in> set (sy_told y)) \<Longrightarrow>
    system_step q y (y\<lparr>sy_workers := (sy_workers y)[i := w'], sy_finished := finished_by (wk_id w) ev @ sy_finished y\<rparr>)"
| boot: "worker_boot getenv dial uuid = Inr w \<Longrightarrow>
    system_step q y (y\<lparr>sy_workers := sy_workers y @ [w]\<rparr>)"

definition new_system :: "dur \<Rightarrow> db \<Rightarrow> system" where
  "new_system reapEvery d =
     \<lparr>sy_server = Server_New reapEvery d, sy_workers = [], sy_told = [], sy_finished = []\<rparr>"

section \<open>Assignments tell the truth\<close>

text \<open>The job is in the table with this type, this payload and this budget.\<close>

definition true_job :: "db \<Rightarrow> Job \<Rightarrow> bool" where
  "true_job d job \<longleftrightarrow> (case job_of d (job_Id job) of None \<Rightarrow> False
     | Some r \<Rightarrow> jr_type r = job_Type job \<and> jr_payload r = job_Payload job
        \<and> word_of_int (jr_max_retries r) = job_MaxRetries job)"

definition true_assigned :: "db \<Rightarrow> Assigned \<Rightarrow> bool" where
  "true_assigned d a \<longleftrightarrow> (case assigned_Job a of None \<Rightarrow> False | Some job \<Rightarrow> true_job d job)"

definition hub_true :: "hub \<Rightarrow> bool" where
  "hub_true hb \<longleftrightarrow> distinct (map jr_id (jobs (hb_db hb)))
     \<and> (\<forall>c. list_all (true_assigned (hb_db hb)) (hb_chans hb c))"

lemma reaches_ids:
  "distinct (map jr_id (jobs d)) \<Longrightarrow> reaches e P d d' \<Longrightarrow> distinct (map jr_id (jobs d'))"
  by (auto simp: reaches_def run_ops_ids)

lemma true_job_kept:
  assumes "engine_ok e" and "distinct (map jr_id (jobs d))" and "reaches e P d d'" and "true_job d job"
  shows "true_job d' job"
proof -
  from assms(4) obtain r where "job_of d (job_Id job) = Some r" "jr_type r = job_Type job"
      "jr_payload r = job_Payload job" "word_of_int (jr_max_retries r) = job_MaxRetries job"
    by (auto simp: true_job_def split: option.splits)
  with reaches_keeps_job [OF assms(1-3), of "job_Id job" r] show ?thesis by (auto simp: true_job_def)
qed

lemma true_assigned_kept:
  "engine_ok e \<Longrightarrow> distinct (map jr_id (jobs d)) \<Longrightarrow> reaches e P d d' \<Longrightarrow> true_assigned d a \<Longrightarrow>
     true_assigned d' a"
  by (auto simp: true_assigned_def intro: true_job_kept split: option.splits)

lemma hub_true_db:
  assumes "engine_ok e" and "hub_true hb" and "reaches e P (hb_db hb) d"
  shows "hub_true (hb\<lparr>hb_db := d\<rparr>)"
  using assms true_assigned_kept [OF assms(1) _ assms(3)] reaches_ids [OF _ assms(3)]
  by (auto simp: hub_true_def list_all_iff)

lemma claimed_job_true:
  assumes "leased_as d job w"
  shows "true_assigned d (assignment q job)"
proof -
  from assms obtain r where "job_of d (job_Id job) = Some r" "job_of_row r = job"
    by (auto simp: leased_as_def)
  then show ?thesis by (auto simp: true_assigned_def true_job_def assignment_def job_of_row_def)
qed

text \<open>A pass only adds assignments of jobs it has claimed.\<close>

lemma push_loop_true:
  assumes "engine_ok (q_store q)" and "hub_true hb"
    and "push_loop q tm env k ws (hb_chans hb) (hb_db hb) = (r, k', ws', ch', d')"
  shows "hub_true (hb\<lparr>hb_chans := ch', hb_db := d'\<rparr>)"
  using assms(2,3)
proof (induction ws arbitrary: k hb)
  case (Cons w ws)
  let ?d = "meet (q_store q) (env k) (hb_db hb)"
  obtain d1 res where dq: "DequeueJob (q_store q) (env_call (env k)) tm (wt_workerID w) (q_leaseFor q) ?d = (d1, res)"
    by fastforce
  have met: "reaches (q_store q) (\<lambda>_. True) (hb_db hb) ?d" by (auto simp: reaches_def meet_def)
  moreover have "reaches (q_store q) (\<lambda>_. True) ?d d1"
    using reaches_op [of "\<lambda>_. True" "OpDequeue tm (wt_workerID w) (q_leaseFor q)" "q_store q" ?d "env_call (env k)"] dq by simp
  ultimately have ok: "hub_true (hb\<lparr>hb_db := d1\<rparr>)"
    using hub_true_db [OF assms(1) Cons.prems(1)] reaches_trans by blast
  have ids: "distinct (map jr_id (jobs ?d))"
    using Cons.prems(1) met reaches_ids by (auto simp: hub_true_def)
  show ?case
  proof (cases "\<exists>job ch. res = Inr (Some job) \<and> chan_send (wt_deliveries w) (assignment q job) (hb_chans hb) = Some ch")
    case True
    then obtain job ch where job: "res = Inr (Some job)"
        "chan_send (wt_deliveries w) (assignment q job) (hb_chans hb) = Some ch" by blast
    have "true_assigned d1 (assignment q job)"
      using claimed_job_true DequeueJob_holds [OF assms(1) ids] dq job(1) by blast
    with ok job(2) have "hub_true (hb\<lparr>hb_chans := ch, hb_db := d1\<rparr>)"
      by (auto simp: hub_true_def chan_send_def split: if_splits)
    from Cons.IH [OF this, of "Suc k"] Cons.prems(2) dq job show ?thesis
      by (simp add: Queue_Dequeue_def)
  next
    case False
    with Cons.prems(2) dq ok show ?thesis
      by (auto simp: Queue_Dequeue_def hub_true_def split: sum.splits option.splits)
  qed
qed (auto simp: hub_true_def)

lemma pushLocked_true:
  assumes "engine_ok (q_store q)" and "hub_true hb"
  shows "hub_true (fst (pushLocked q env hb))"
proof (cases "Leading (pu_leading env)")
  case True
  obtain r k ws ch d where loop: "push_loop q (Term (pu_term env)) (pu_db env) 0
      (ds_waiters (hb_dis hb)) (hb_chans hb) (hb_db hb) = (r, k, ws, ch, d)"
    by (metis prod_cases5)
  note after = push_loop_true [OF assms loop] pushLocked_leading(2,3) [OF True loop]
  have "reaches (q_store q) (\<lambda>_. True) d (meet (q_store q) (pu_db env k) d)" by (auto simp: reaches_def meet_def)
  with hub_true_db [OF assms(1) after(1)] after show ?thesis
    by (auto simp: hub_true_def split: if_splits)
qed (use assms(2) in \<open>simp add: pushLocked_def\<close>)

lemma hub_true_dis [simp]: "hub_true (hb\<lparr>hb_dis := x\<rparr>) = hub_true hb"
  by (simp add: hub_true_def)

lemma register_true:
  "engine_ok (q_store q) \<Longrightarrow> hub_true hb \<Longrightarrow> hub_true (fst (register q env w hb))"
  by (simp add: register_def pushLocked_true)

lemma Push_true: "engine_ok (q_store q) \<Longrightarrow> hub_true hb \<Longrightarrow> hub_true (fst (Push q b env hb))"
  by (simp add: Push_def pushLocked_true)

lemma forget_true [simp]: "hub_true (forget w hb) = hub_true hb"
  by (simp add: forget_def)

lemma answer_no_assignment: "answer q x w msg d = (d', Some (ServerMessage_Assigned a), free, log) \<Longrightarrow> False"
  by (auto simp: answer_def result_msg_def Let_def split: WorkerMessage.splits prod.splits sum.splits
      option.splits if_splits)

text \<open>What a stream sends are replies and what was on its channel.\<close>

lemma register_then_true:
  assumes "engine_ok (q_store q)" and "hub_true hb"
  shows "case register_then q env free hb s of
      Goes s' hb' \<Rightarrow> s' = s \<and> hub_true hb' | Hangs hb' hung \<Rightarrow> hub_true hb' | _ \<Rightarrow> False"
  using register_true [OF assms, of env "sm_waiter s"] assms(2)
  by (auto simp: register_then_def split: prod.split option.split)

lemma stream_turn_true:
  assumes "engine_ok (q_store q)" and "hub_true hb"
  shows "case stream_turn q env sel st hb of
      NotReady \<Rightarrow> True
    | Goes st' hb' \<Rightarrow> hub_true hb' \<and> (\<forall>a. ServerMessage_Assigned a \<in> set (sm_sent st') \<longrightarrow>
        ServerMessage_Assigned a \<in> set (sm_sent st) \<or> (\<exists>c. a \<in> set (hb_chans hb c)))
    | Ends x hb' \<Rightarrow> hub_true hb'
    | Hangs hb' hung \<Rightarrow> hub_true hb'"
proof (cases sel)
  case GotDelivery
  show ?thesis
  proof (cases "hb_chans hb (wt_deliveries (sm_waiter st))")
    case (Cons a as)
    then have "\<exists>c. a \<in> set (hb_chans hb c)" by (metis list.set_intros(1))
    moreover have "hub_true (hb\<lparr>hb_chans := (hb_chans hb)(wt_deliveries (sm_waiter st) := as)\<rparr>)"
      using assms(2) Cons by (force simp: hub_true_def dest: spec [of _ "wt_deliveries (sm_waiter st)"])
    ultimately show ?thesis using GotDelivery Cons
      by (cases "tn_send_err env") (auto simp: stream_turn_def send_then_def Let_def)
  qed (simp add: GotDelivery stream_turn_def)
next
  case (GotMessage msg)
  obtain d reply free log where
    ans: "answer q (tn_db env) (wt_workerID (sm_waiter st)) msg (hb_db hb) = (d, reply, free, log)"
    by (metis prod_cases4)
  let ?hb = "hb\<lparr>hb_db := d\<rparr>"
  have "reaches (q_store q) (\<lambda>_. True) (hb_db hb) d"
    using answer_reaches [of "\<lambda>_. True" "tn_db env" q "wt_workerID (sm_waiter st)" msg "hb_db hb"] ans
    by (simp add: calls_in_def list_all_iff)
  then have ok: "hub_true ?hb" by (rule hub_true_db [OF assms])
  define st1 where "st1 = (case reply of None \<Rightarrow> st | Some m \<Rightarrow> st\<lparr>sm_sent := sm_sent st @ [m]\<rparr>)"
  have sent: "ServerMessage_Assigned a \<in> set (sm_sent st)" if "ServerMessage_Assigned a \<in> set (sm_sent st1)" for a
    using that ans by (auto simp: st1_def split: option.splits dest: answer_no_assignment)
  have "stream_turn q env sel st hb = register_then q (tn_push env) free ?hb st1
      \<or> (\<exists>x. stream_turn q env sel st hb = Ends x (forget (wt_workerID (sm_waiter st)) ?hb))"
    using ans GotMessage by (auto simp: stream_turn_def send_then_def Let_def st1_def split: option.split)
  then show ?thesis
    using register_then_true [OF assms(1) ok, where env = "tn_push env" and free = free and s = st1] ok sent
    by (auto split: turn.splits)
qed (use assms(2) in \<open>simp_all add: stream_turn_def\<close>)

text \<open>A step of the server.\<close>

definition sends_true :: "server \<Rightarrow> bool" where
  "sends_true s \<longleftrightarrow> hub_true (sv_hub s)
     \<and> (\<forall>x \<in> set (assignments s). true_assigned (hb_db (sv_hub s)) (snd x))"

lemma assignments_iff:
  "(w, a) \<in> set (assignments s) \<longleftrightarrow>
     (\<exists>st \<in> set (sv_streams s). w = wt_workerID (sm_waiter st) \<and> ServerMessage_Assigned a \<in> set (sm_sent st))"
  by (force simp: assignments_def split: ServerMessage.splits)

lemma assignments_true:
  "(\<forall>x \<in> set (assignments s). true_assigned d (snd x)) \<longleftrightarrow>
     (\<forall>st \<in> set (sv_streams s). \<forall>a. ServerMessage_Assigned a \<in> set (sm_sent st) \<longrightarrow> true_assigned d a)"
  using assignments_iff [of _ _ s] by fastforce

lemma Enqueue_true:
  assumes "engine_ok (q_store q)" and "hub_true hb" and "Enqueue q uuid x b env req hb = (hb', hung, resp)"
  shows "hub_true hb'"
proof (cases "EnqueueRequest_GetJob req")
  case (Some j)
  define job where "job = (if job_Id j = '''' then j\<lparr>job_Id := uuid\<rparr> else j)"
  obtain d err where enq: "Queue_Enqueue q (env_call x) job (meet (q_store q) x (hb_db hb)) = (d, err)"
    by fastforce
  then have d: "d = apply_op (q_store q) (env_call x) (OpCreate job) (meet (q_store q) x (hb_db hb))"
    by (auto simp: Queue_Enqueue_def split: prod.splits option.splits)
  have "reaches (q_store q) (\<lambda>_. True) (hb_db hb) d"
    unfolding d by (rule reaches_meet_op) (simp_all add: calls_in_def list_all_iff)
  then have ok: "hub_true (hb\<lparr>hb_db := d\<rparr>)" by (rule hub_true_db [OF assms(1,2)])
  obtain hb1 h where push: "Push q b env (hb\<lparr>hb_db := d\<rparr>) = (hb1, h)" by fastforce
  with Push_true [OF assms(1) ok, of b env] have "hub_true hb1" by simp
  with Some enq push ok assms(3) show ?thesis
    by (auto simp: Enqueue_def job_def [symmetric] Let_def split: option.splits)
qed (use assms(2,3) in \<open>simp add: Enqueue_def\<close>)

interpretation honest_ops: served_ops "honest ws" for ws
proof
  fix op assume "op_ok op" "\<not> report_op op"
  then show "honest ws op" by (cases op) (simp_all add: honest_def)
qed

lemma sends_true_kept:
  assumes "engine_ok e" and "sends_true s" and "reaches e P (hb_db (sv_hub s)) d"
  shows "sends_true (s\<lparr>sv_hub := (sv_hub s)\<lparr>hb_db := d\<rparr>\<rparr>)"
proof -
  have "distinct (map jr_id (jobs (hb_db (sv_hub s))))" using assms(2) by (simp add: sends_true_def hub_true_def)
  with assms true_assigned_kept [OF assms(1) _ assms(3)] hub_true_db [OF assms(1) _ assms(3)]
  show ?thesis by (simp add: sends_true_def assignments_def)
qed

lemma serving_true:
  assumes "engine_ok (q_store q)" and "line_live s" and "streams_ok s" and "sends_true s"
    and "serving_step (honest ws) q s s'"
  shows "sends_true s'"
proof -
  have hub: "hub_true (sv_hub s)" using assms(4) by (simp add: sends_true_def)
  note reach = honest_ops.serving_reaches [OF assms(2,3,5)]
  have chan: "true_assigned (hb_db (sv_hub s)) a" if "a \<in> set (hb_chans (sv_hub s) c)" for a c
    using hub that by (auto simp: hub_true_def list_all_iff)
  have kept: "true_assigned (hb_db (sv_hub s')) a" if "true_assigned (hb_db (sv_hub s)) a" for a
    using true_assigned_kept [OF assms(1) _ reach that] hub by (simp add: hub_true_def)
  have old: "true_assigned (hb_db (sv_hub s)) a"
    if "st \<in> set (sv_streams s)" "ServerMessage_Assigned a \<in> set (sm_sent st)" for st a
    using assms(4) that by (auto simp: sends_true_def assignments_true)
  have fresh: "ServerMessage_Assigned a \<in> set (sm_sent st) \<Longrightarrow> true_assigned (hb_db (sv_hub s)) a"
    if "stream_turn q env sel (sv_streams s ! i) (sv_hub s) = Goes st hb" "i < length (sv_streams s)" for env sel i st hb a
    using stream_turn_true [OF assms(1) hub, where env = env and sel = sel and st = "sv_streams s ! i"] that chan old [of "sv_streams s ! i" a]
    by auto
  from assms(5) have "hub_true (sv_hub s') \<and> (\<forall>st \<in> set (sv_streams s'). \<forall>a.
      ServerMessage_Assigned a \<in> set (sm_sent st) \<longrightarrow> true_assigned (hb_db (sv_hub s)) a)"
  proof cases
    case (connect msg workerID env w hb hung)
    with register_true [OF assms(1) hub, of env w] old show ?thesis by auto
  next
    case (turn i env sel st hb)
    with stream_turn_true [OF assms(1) hub, where env = env and sel = sel and st = "sv_streams s ! i"] fresh [OF turn(7) turn(3)] old
    show ?thesis by (auto dest!: subsetD [OF set_update_subset_insert])
  next
    case (turn_ends i env sel x hb)
    with stream_turn_true [OF assms(1) hub, where env = env and sel = sel and st = "sv_streams s ! i"] old set_drop_nth [of i "sv_streams s"]
    show ?thesis by auto
  next
    case (turn_hangs i env sel hb hung)
    with stream_turn_true [OF assms(1) hub, where env = env and sel = sel and st = "sv_streams s ! i"] old show ?thesis by auto
  next
    case (enqueue env x req uuid hb hung resp)
    with Enqueue_true [OF assms(1) hub] old show ?thesis by auto
  next
    case (timer wait env hb hung)
    with Push_true [OF assms(1), of "(sv_hub s)\<lparr>hb_dis := (hb_dis (sv_hub s))\<lparr>ds_timer := Fired\<rparr>\<rparr>" "sv_stop s" env]
      hub old show ?thesis by (auto simp: timer_fires_def)
  qed
  with kept show ?thesis by (auto simp: sends_true_def assignments_true)
qed

section \<open>Workers work on what they were sent and report what they did\<close>

lemma worker_step_handlers:
  assumes "worker_step w ev w'" and "h \<in> set (wk_handlers w')"
  shows "h \<in> set (wk_handlers w)
    \<or> (\<exists>a. ev = Receives (ServerMessage_Assigned a) \<and> assigned_Job a = Some (hn_job h))"
  using assms
proof (cases rule: worker_step.cases)
  case (receive msg)
  with assms(2) show ?thesis
    by (auto simp: run_recv_def start_def work_begin_def Let_def
        split: ServerMessage.splits option.splits if_splits)
next
  case (finish h' taken send_err)
  with assms(2) set_remove1_subset [of h' "wk_handlers w"] show ?thesis
    by (auto simp: work_end_def send_def Let_def split: option.splits if_splits)
qed (auto simp: run_open_def send_def after_run_def beat_tick_def beat_done_def split: option.splits if_splits)

lemma worker_step_id: "worker_step w ev w' \<Longrightarrow> wk_id w' = wk_id w"
  by (cases rule: worker_step.cases)
     (auto simp: run_open_def run_recv_def start_def work_begin_def work_end_def send_def after_run_def
       beat_tick_def beat_done_def Let_def split: ServerMessage.splits option.splits if_splits)

lemma worker_step_reports:
  assumes "worker_step w ev w'" and "WorkerMessage_Completed m \<in> snd ` set (wk_sent w')"
  shows "WorkerMessage_Completed m \<in> snd ` set (wk_sent w)
    \<or> (\<exists>h \<in> set (wk_handlers w). ev = Finishes h None \<and> completed_JobId m = job_Id (hn_job h))"
  using assms
proof (cases rule: worker_step.cases)
  case (receive msg)
  with assms(2) show ?thesis
    by (auto simp: run_recv_def start_def work_begin_def Let_def
        split: ServerMessage.splits option.splits if_splits)
next
  case (finish h' taken send_err)
  with assms(2) show ?thesis
    by (auto simp: work_end_def send_def work_report_def Let_def split: option.splits if_splits)
qed (auto simp: run_open_def send_def after_run_def beat_tick_def beat_done_def split: option.splits if_splits)


section \<open>The system stays honest\<close>

definition sent_to :: "system \<Rightarrow> string \<Rightarrow> Job \<Rightarrow> bool" where
  "sent_to y w job \<longleftrightarrow> list_ex (\<lambda>x. fst x = w \<and> assigned_Job (snd x) = Some job) (sy_told y)"

text \<open>The database and the server: what has been sent and what is on its way is true.\<close>

definition told_ok :: "system \<Rightarrow> bool" where
  "told_ok y \<longleftrightarrow> (let s = sy_server y in
     db_ok (hb_db (sv_hub s)) \<and> line_live s \<and> streams_ok s \<and> sends_true s
   \<and> (\<forall>x \<in> set (sy_told y). true_assigned (hb_db (sv_hub s)) (snd x)))"

text \<open>Some attempt of the simulated work comes to a good end.\<close>

definition can_succeed :: "Job \<Rightarrow> bool" where
  "can_succeed job \<longleftrightarrow> (\<exists>attempt taken. handle job attempt taken = None)"

lemma worker_step_finished:
  "worker_step w ev w' \<Longrightarrow> ev = Finishes h None \<Longrightarrow> h \<in> set (wk_handlers w) \<and> can_succeed (hn_job h)"
  unfolding can_succeed_def by (cases rule: worker_step.cases) (auto dest: sym)

text \<open>The workers: what runs was sent, what finished was sent, what is reported has finished.\<close>

definition work_ok :: "system \<Rightarrow> bool" where
  "work_ok y \<longleftrightarrow>
     (\<forall>w \<in> set (sy_workers y). \<forall>h \<in> set (wk_handlers w). sent_to y (wk_id w) (hn_job h))
   \<and> (\<forall>x \<in> set (sy_finished y). sent_to y (fst x) (snd x) \<and> can_succeed (snd x))
   \<and> (\<forall>i w. reported (sy_workers y) i w \<longrightarrow> (\<exists>job. (w, job) \<in> set (sy_finished y) \<and> job_Id job = i))"

definition is_done :: "job_row option \<Rightarrow> bool" where
  "is_done ro \<longleftrightarrow> (case ro of None \<Rightarrow> False | Some r \<Rightarrow> jr_state r = ''done'')"

definition done_ok :: "db \<Rightarrow> system \<Rightarrow> bool" where
  "done_ok d0 y \<longleftrightarrow> (\<forall>i. is_done (job_of (hb_db (sv_hub (sy_server y))) i) \<longrightarrow>
     is_done (job_of d0 i) \<or> (\<exists>x \<in> set (sy_finished y). job_Id (snd x) = i))"

lemma row_step_done:
  assumes "row_step e t ev ro ro'" and "event_ok ev" and "is_done ro'"
  shows "is_done ro \<or> (\<exists>w. ev = RFinish w)"
  using assms
  by (cases rule: row_step.cases)
    (auto simp: is_done_def new_row_def claim_row_def beat_row_def reap_row_def retryDecision_def
      elim!: fail_row_Inr split: sum.splits if_splits)

lemma honest_ok: "honest ws op \<Longrightarrow> op_ok op"
  by (simp add: honest_def)

text \<open>A job is done in the end only if it was, or if a worker has reported it.\<close>

lemma done_reported:
  assumes "engine_ok e" and "distinct (map jr_id (jobs d))" and "reaches e (honest ws) d d'"
    and "is_done (job_of d' i)"
  shows "is_done (job_of d i) \<or> (\<exists>w. reported ws i w)"
proof -
  let ?G = "\<lambda>ev. event_ok ev \<and> (\<forall>w. ev = RFinish w \<longrightarrow> reported ws i w)"
  let ?Q = "\<lambda>ro ro'. is_done ro' \<longrightarrow> is_done ro \<or> (\<exists>w. reported ws i w)"
  from assms(3) obtain xs where xs: "d' = run_ops e xs d" "\<forall>x \<in> set xs. honest ws (snd x)"
    unfolding reaches_def by blast
  have "?Q (job_of d i) (job_of (run_ops e xs d) i)"
  proof (rule run_ops_row [OF assms(1,2), where G = ?G])
    fix c op ev assume op: "(c, op) \<in> set xs" "op_event op i ev"
    with xs(2) have "honest ws op" by fastforce
    with op(2) show "?G ev" by (cases op) (auto simp: honest_def)
  next
    fix t ev ro ro' assume "row_step e t ev ro ro'" "?G ev"
    then show "?Q ro ro'" using row_step_done by blast
  qed blast+
  with assms(4) xs(1) show ?thesis by simp
qed

text \<open>Whatever leads from one database to another by honest operations keeps the books right.\<close>

lemma done_ok_kept:
  assumes "engine_ok e" and "distinct (map jr_id (jobs (hb_db (sv_hub (sy_server y)))))" and "done_ok d0 y"
    and "work_ok y" and "reaches e (honest (sy_workers y)) (hb_db (sv_hub (sy_server y))) (hb_db (sv_hub (sy_server y')))"
    and "sy_finished y' = sy_finished y"
  shows "done_ok d0 y'"
  unfolding done_ok_def
proof (intro allI impI)
  fix i assume "is_done (job_of (hb_db (sv_hub (sy_server y'))) i)"
  from done_reported [OF assms(1,2,5) this]
  show "is_done (job_of d0 i) \<or> (\<exists>x \<in> set (sy_finished y'). job_Id (snd x) = i)"
  proof
    assume "is_done (job_of (hb_db (sv_hub (sy_server y))) i)"
    with assms(3,6) show ?thesis by (simp add: done_ok_def)
  next
    assume "\<exists>w. reported (sy_workers y) i w"
    with assms(4) obtain w job where "(w, job) \<in> set (sy_finished y)" "job_Id job = i"
      unfolding work_ok_def by blast
    with assms(6) show ?thesis by force
  qed
qed

lemma sent_to_mono: "sent_to y w job \<Longrightarrow> set (sy_told y) \<subseteq> set (sy_told y') \<Longrightarrow> sent_to y' w job"
  unfolding sent_to_def list_ex_iff by blast

lemma sent_toI: "(w, a) \<in> set (sy_told y) \<Longrightarrow> assigned_Job a = Some job \<Longrightarrow> sent_to y w job"
  by (force simp: sent_to_def list_ex_iff)

lemma work_ok_told:
  assumes "work_ok y" and "sy_workers y' = sy_workers y" and "sy_finished y' = sy_finished y"
    and "set (sy_told y) \<subseteq> set (sy_told y')"
  shows "work_ok y'"
  using assms(1) sent_to_mono [OF _ assms(4)] unfolding work_ok_def assms(2,3) by blast

text \<open>The steps of the server and of other nodes.\<close>

lemma told_ok_serve:
  assumes "engine_ok (q_store q)" and "told_ok y" and "serving_step (honest ws) q (sy_server y) s"
  shows "told_ok (y\<lparr>sy_server := s, sy_told := assignments s @ sy_told y\<rparr>)
    \<and> reaches (q_store q) (honest ws) (hb_db (sv_hub (sy_server y))) (hb_db (sv_hub s))"
proof -
  let ?d = "hb_db (sv_hub (sy_server y))" and ?d' = "hb_db (sv_hub s)"
  from assms(2) have y: "db_ok ?d" "line_live (sy_server y)" "streams_ok (sy_server y)" "sends_true (sy_server y)"
      "\<forall>x \<in> set (sy_told y). true_assigned ?d (snd x)"
    by (simp_all add: told_ok_def Let_def)
  note reach = honest_ops.serving_reaches [OF y(2,3) assms(3)]
  have "db_ok ?d'" using reaches_ok [OF assms(1) y(1) reaches_mono [OF reach honest_ok]] .
  moreover have "line_live s \<and> streams_ok s" by (rule honest_ops.serving_line [OF y(2,3) assms(3)])
  moreover have "sends_true s" by (rule serving_true [OF assms(1) y(2-4) assms(3)])
  moreover have "\<forall>x \<in> set (sy_told y). true_assigned ?d' (snd x)"
    using y(1,5) true_assigned_kept [OF assms(1) _ reach] by (auto simp: db_ok_def)
  ultimately show ?thesis using reach by (auto simp: told_ok_def Let_def sends_true_def)
qed

lemma told_ok_db:
  assumes "engine_ok e" and "told_ok y" and "reaches e op_ok (hb_db (sv_hub (sy_server y))) d"
  shows "told_ok (y\<lparr>sy_server := (sy_server y)\<lparr>sv_hub := (sv_hub (sy_server y))\<lparr>hb_db := d\<rparr>\<rparr>\<rparr>)"
proof -
  let ?d = "hb_db (sv_hub (sy_server y))"
  from assms(2) have y: "db_ok ?d" "line_live (sy_server y)" "streams_ok (sy_server y)" "sends_true (sy_server y)"
      "\<forall>x \<in> set (sy_told y). true_assigned ?d (snd x)"
    by (simp_all add: told_ok_def Let_def)
  have "\<forall>x \<in> set (sy_told y). true_assigned d (snd x)"
    using y(1,5) true_assigned_kept [OF assms(1) _ assms(3)] by (auto simp: db_ok_def)
  with y sends_true_kept [OF assms(1) y(4) assms(3)] reaches_ok [OF assms(1) y(1) assms(3)]
  show ?thesis by (simp add: told_ok_def Let_def line_live_def streams_ok_def)
qed

lemma Server_New_true: "db_ok d \<Longrightarrow> sends_true (Server_New n d)"
  by (simp add: sends_true_def assignments_def hub_true_def Server_New_def leadership_defs db_ok_def)

lemma hb_db_Server_New [simp]: "hb_db (sv_hub (Server_New n d)) = d"
  by (simp add: Server_New_def leadership_defs)

lemma told_ok_restart: "told_ok y \<Longrightarrow> told_ok (y\<lparr>sy_server := Server_New n (hb_db (sv_hub (sy_server y)))\<rparr>)"
  using Server_New_ok [of "hb_db (sv_hub (sy_server y))" n] Server_New_true
  by (simp add: told_ok_def Let_def server_ok_def)

text \<open>A step of a worker.\<close>

lemma reported_iff: "reported ws i w \<longleftrightarrow> (\<exists>wk \<in> set ws. wk_id wk = w
    \<and> WorkerMessage_Completed \<lparr>completed_JobId = i\<rparr> \<in> snd ` set (wk_sent wk))"
  by (simp add: reported_def list_ex_iff Bex_def)

lemma work_ok_step:
  assumes "work_ok y" and "w \<in> set (sy_workers y)" and "worker_step w ev w'"
    and told: "\<forall>a. ev = Receives (ServerMessage_Assigned a) \<longrightarrow> (wk_id w, a) \<in> set (sy_told y)"
    and "y' = y\<lparr>sy_workers := (sy_workers y)[i := w'], sy_finished := finished_by (wk_id w) ev @ sy_finished y\<rparr>"
  shows "work_ok y'"
  unfolding work_ok_def
proof (intro conjI ballI allI impI)
  have sent: "sent_to y' = sent_to y" by (simp add: fun_eq_iff sent_to_def assms(5))
  have ws: "v \<in> set (sy_workers y) \<or> v = w'" if "v \<in> set (sy_workers y')" for v
    using that set_update_subset_insert [of "sy_workers y" i w'] assms(5) by auto
  have id: "wk_id w' = wk_id w" by (rule worker_step_id [OF assms(3)])
  fix v h assume vh: "v \<in> set (sy_workers y')" "h \<in> set (wk_handlers v)"
  show "sent_to y' (wk_id v) (hn_job h)"
  proof (cases "v \<in> set (sy_workers y)")
    case True
    with assms(1) vh(2) show ?thesis by (simp add: work_ok_def sent)
  next
    case False
    with ws [OF vh(1)] have v: "v = w'" by simp
    with worker_step_handlers [OF assms(3)] vh(2) consider "h \<in> set (wk_handlers w)"
      | a where "ev = Receives (ServerMessage_Assigned a)" "assigned_Job a = Some (hn_job h)" by blast
    then have "sent_to y (wk_id w) (hn_job h)"
      using assms(1,2) told sent_toI unfolding work_ok_def by cases blast+
    then show ?thesis by (simp add: v id sent)
  qed
next
  fix x assume "x \<in> set (sy_finished y')"
  then consider "x \<in> set (sy_finished y)" | h where "ev = Finishes h None" "x = (wk_id w, hn_job h)"
    by (auto simp: assms(5) finished_by_def split: worker_event.splits option.splits)
  then have "sent_to y (fst x) (snd x) \<and> can_succeed (snd x)"
  proof cases
    case 1
    with assms(1) show ?thesis by (simp add: work_ok_def)
  next
    case (2 h)
    with worker_step_finished [OF assms(3)] assms(1,2) show ?thesis by (simp add: work_ok_def)
  qed
  then show "sent_to y' (fst x) (snd x)" and "can_succeed (snd x)" by (simp_all add: sent_to_def assms(5))
next
  fix k v assume "reported (sy_workers y') k v"
  then obtain wk where wk: "wk \<in> set (sy_workers y')" "wk_id wk = v"
      "WorkerMessage_Completed \<lparr>completed_JobId = k\<rparr> \<in> snd ` set (wk_sent wk)"
    by (auto simp: reported_iff)
  have old: "\<exists>job. (v, job) \<in> set (sy_finished y') \<and> job_Id job = k" if "reported (sy_workers y) k v"
  proof -
    from that assms(1) obtain job where "(v, job) \<in> set (sy_finished y)" "job_Id job = k"
      unfolding work_ok_def by blast
    then show ?thesis by (auto simp: assms(5))
  qed
  show "\<exists>job. (v, job) \<in> set (sy_finished y') \<and> job_Id job = k"
  proof (cases "wk \<in> set (sy_workers y)")
    case True
    with wk old show ?thesis by (auto simp: reported_iff)
  next
    case False
    with wk(1) set_update_subset_insert [of "sy_workers y" i w'] assms(5) have new: "wk = w'" by auto
    from worker_step_reports [OF assms(3)] wk(3) new consider
        "WorkerMessage_Completed \<lparr>completed_JobId = k\<rparr> \<in> snd ` set (wk_sent w)"
      | h where "ev = Finishes h None" "k = job_Id (hn_job h)" by fastforce
    then show ?thesis
    proof cases
      case 1
      with wk(2) new worker_step_id [OF assms(3)] assms(2) old show ?thesis by (auto simp: reported_iff)
    next
      case (2 h)
      with wk(2) new worker_step_id [OF assms(3)] show ?thesis by (auto simp: assms(5) finished_by_def)
    qed
  qed
qed

text \<open>The invariant of the system.\<close>

definition system_ok :: "db \<Rightarrow> system \<Rightarrow> bool" where
  "system_ok d0 y \<longleftrightarrow> told_ok y \<and> work_ok y \<and> done_ok d0 y"

lemma new_system_ok: "db_ok d \<Longrightarrow> system_ok d (new_system n d)"
  using Server_New_ok [of d n] Server_New_true [of d n]
  by (simp add: system_ok_def new_system_def told_ok_def work_ok_def done_ok_def Let_def server_ok_def
      reported_def)

lemma system_step_ok:
  assumes "engine_ok (q_store q)" and "system_ok d0 y" and "system_step q y y'"
  shows "system_ok d0 y'"
  using assms(3)
proof cases
  case (serve s)
  note after = told_ok_serve [OF assms(1) _ serve(2)]
  from assms(2) have y: "told_ok y" "work_ok y" "done_ok d0 y" by (simp_all add: system_ok_def)
  then have ids: "distinct (map jr_id (jobs (hb_db (sv_hub (sy_server y)))))"
    by (simp add: told_ok_def Let_def db_ok_def)
  have "done_ok d0 y'"
    using after [OF y(1)] by (intro done_ok_kept [OF assms(1) ids y(3,2)]) (simp_all add: serve(1))
  moreover have "work_ok y'" by (rule work_ok_told [OF y(2)]) (simp_all add: serve(1))
  ultimately show ?thesis using after [OF y(1)] by (simp add: system_ok_def serve(1))
next
  case (lead s)
  from assms(2) have y: "told_ok y" "work_ok y" "done_ok d0 y" by (simp_all add: system_ok_def)
  then have "line_live s \<and> streams_ok s"
    using server_step_line [OF _ _ lead(2)] by (simp add: told_ok_def Let_def)
  with y(1) lead have "told_ok y'" by (simp add: told_ok_def Let_def sends_true_def assignments_def)
  moreover have "work_ok y'" by (rule work_ok_told [OF y(2)]) (simp_all add: lead(1))
  moreover have "done_ok d0 y'" using y(3) lead by (simp add: done_ok_def)
  ultimately show ?thesis by (simp add: system_ok_def)
next
  case (others xs d)
  from assms(2) have y: "told_ok y" "work_ok y" "done_ok d0 y" by (simp_all add: system_ok_def)
  then have ids: "distinct (map jr_id (jobs (hb_db (sv_hub (sy_server y)))))"
    by (simp add: told_ok_def Let_def db_ok_def)
  have reach: "reaches (q_store q) (honest (sy_workers y)) (hb_db (sv_hub (sy_server y))) d"
    using others(2,3) by (auto simp: reaches_def)
  then have "told_ok y'"
    unfolding others(1) by (intro told_ok_db [OF assms(1) y(1)] reaches_mono [OF _ honest_ok])
  moreover have "work_ok y'" by (rule work_ok_told [OF y(2)]) (simp_all add: others(1))
  moreover have "done_ok d0 y'"
    using reach by (intro done_ok_kept [OF assms(1) ids y(3,2)]) (simp_all add: others(1))
  ultimately show ?thesis by (simp add: system_ok_def)
next
  case (restart n)
  from assms(2) have y: "told_ok y" "work_ok y" "done_ok d0 y" by (simp_all add: system_ok_def)
  moreover have "work_ok y'" by (rule work_ok_told [OF y(2)]) (simp_all add: restart)
  ultimately show ?thesis using told_ok_restart [OF y(1), of n] by (simp add: system_ok_def done_ok_def restart)
next
  case (work i w ev w')
  from assms(2) have y: "told_ok y" "work_ok y" "done_ok d0 y" by (simp_all add: system_ok_def)
  from work have "w \<in> set (sy_workers y)" by simp
  from work_ok_step [OF y(2) this work(4,5,1)] y(1,3) show ?thesis
    by (auto simp: system_ok_def told_ok_def done_ok_def Let_def work(1))
next
  case (boot getenv dial uuid w)
  then have w: "wk_handlers w = []" "wk_sent w = []"
    by (auto simp: worker_boot_def new_worker_def Let_def split: sum.splits)
  have "work_ok y'"
    using assms(2) w unfolding system_ok_def work_ok_def boot(1)
    by (auto simp: reported_iff sent_to_def)
  with assms(2) show ?thesis by (simp add: system_ok_def told_ok_def done_ok_def Let_def boot(1))
qed

lemma system_run:
  assumes "engine_ok (q_store q)" and "db_ok d" and "(system_step q)\<^sup>*\<^sup>* (new_system reapEvery d) y"
  shows "system_ok d y"
  using assms(3)
proof (induction rule: rtranclp_induct)
  case base
  show ?case by (rule new_system_ok [OF assms(2)])
next
  case (step y z)
  then show ?case by (blast intro: system_step_ok [OF assms(1)])
qed

lemma system_step_reaches:
  assumes "system_ok d0 y" and "system_step q y y'"
  shows "reaches (q_store q) op_ok (hb_db (sv_hub (sy_server y))) (hb_db (sv_hub (sy_server y')))"
  using assms(2)
proof cases
  case (serve s)
  from assms(1) have "line_live (sy_server y)" "streams_ok (sy_server y)"
    by (simp_all add: system_ok_def told_ok_def Let_def)
  from honest_ops.serving_reaches [OF this serve(2)] show ?thesis
    using honest_ok by (auto simp: serve(1) elim: reaches_mono)
next
  case (others xs d)
  then show ?thesis using honest_ok by (auto simp: reaches_def)
qed simp_all

lemma system_run_from:
  assumes "engine_ok (q_store q)" and "system_ok d0 y" and "(system_step q)\<^sup>*\<^sup>* y z"
  shows "system_ok d0 z \<and> reaches (q_store q) op_ok (hb_db (sv_hub (sy_server y))) (hb_db (sv_hub (sy_server z)))"
  using assms(3)
proof (induction rule: rtranclp_induct)
  case (step z z')
  then show ?case
    using system_step_ok [OF assms(1)] system_step_reaches reaches_trans by blast
qed (simp add: assms(2))

lemma sent_toE:
  assumes "sent_to y w job"
  obtains a where "(w, a) \<in> set (sy_told y)" and "assigned_Job a = Some job"
  using assms by (auto simp: sent_to_def list_ex_iff)

lemma told_job:
  assumes "told_ok y" and "sent_to y w job"
  shows "true_job (hb_db (sv_hub (sy_server y))) job"
proof -
  from assms(2) obtain a where "(w, a) \<in> set (sy_told y)" "assigned_Job a = Some job" by (rule sent_toE)
  with assms(1) show ?thesis by (force simp: told_ok_def Let_def true_assigned_def)
qed

lemma CreateJob_inserts:
  assumes "CreateJob c j d = (d', None)"
  shows "job_of d (job_Id j) = None \<and> d' = d\<lparr>jobs := jobs d @ [new_row (now c) j]\<rparr>"
  using assms by (cases "flt c")
    (auto simp: CreateJob_def exec_def stmt_state_def stmt_result_def sql_insert_job_def split: if_splits)

text \<open>A client that is told of no error has its job in the table.\<close>

lemma Enqueue_success:
  assumes "engine_ok (q_store q)" and "hub_true hb" and "resp_Error resp = ''''"
    and "Enqueue q uuid x stop env req hb = (hb', hung, Some resp)"
  obtains j r where "EnqueueRequest_GetJob req = Some j" and "job_of (hb_db hb') (resp_JobId resp) = Some r"
    and "jr_type r = job_Type j" and "jr_payload r = job_Payload j"
    and "jr_max_retries r = (if job_MaxRetries j = 0 then 3 else sint (job_MaxRetries j))"
proof (cases "EnqueueRequest_GetJob req")
  case None
  with assms(3,4) show thesis by (auto simp: Enqueue_def)
next
  case (Some j)
  define job where "job = (if job_Id j = '''' then j\<lparr>job_Id := uuid\<rparr> else j)"
  let ?d = "meet (q_store q) x (hb_db hb)"
  have ids: "distinct (map jr_id (jobs ?d))"
    using assms(2) run_ops_ids by (simp add: hub_true_def meet_def)
  obtain d err where enq: "CreateJob (env_call x) job ?d = (d, err)" by fastforce
  obtain hb1 h where push: "Push q stop env (hb\<lparr>hb_db := d\<rparr>) = (hb1, h)" by fastforce
  from assms(3,4) Some enq push have out: "err = None" "hb' = hb1" "resp_JobId resp = job_Id job"
    by (auto simp: Enqueue_def Queue_Enqueue_def job_def [symmetric] Let_def split: option.splits)
  with enq have d: "job_of ?d (job_Id job) = None" "d = ?d\<lparr>jobs := jobs ?d @ [new_row (now (env_call x)) job]\<rparr>"
    using CreateJob_inserts by simp_all
  then have row: "job_of d (job_Id job) = Some (new_row (now (env_call x)) job)"
    by (simp add: row_of_append new_row_def)
  have ids': "distinct (map jr_id (jobs d))"
    using ids d by (simp add: row_of_None_iff new_row_def image_iff)
  have "reaches (q_store q) (\<lambda>_. True) d (hb_db hb1)"
    using pushLocked_reaches [of "\<lambda>_. True" env "hb\<lparr>hb_db := d\<rparr>" q] push
    by (cases stop) (auto simp: Push_def calls_in_def list_all_iff)
  from reaches_keeps_job [OF assms(1) ids' this row] obtain r where
    "job_of (hb_db hb1) (job_Id job) = Some r" "jr_type r = job_Type job" "jr_payload r = job_Payload job"
    "jr_max_retries r = (if job_MaxRetries job = 0 then 3 else sint (job_MaxRetries job))"
    unfolding new_row_sel by blast
  then show thesis using that [OF Some] out by (simp add: job_def split: if_splits)
qed

end
