(* ===== verification/Integrity.thy ===== *)
theory Integrity
  imports Whole_System
begin

text \<open>
  What the invariant of the whole system gives: what is done has been worked, and what is worked on
  is what was enqueued; and a run of the system from an enqueued job to the done row.
\<close>

section \<open>A run from enqueue to done\<close>

text \<open>
  A server that has won, a worker \<open>w9\<close> whose stream it has admitted, the job \<open>j3\<close> enqueued and
  claimed, delivered, worked on, reported and recorded.
\<close>

definition addr9 :: "string list" where
  "addr9 = ServerAddrs (\<lambda>_. '''')"

definition w9_open :: worker where
  "w9_open = fst (run_open None None (new_worker ''w9'' addr9))"

definition row3 :: job_row where
  "row3 = (new_row 5000 new_job)\<lparr>jr_state := ''processing'', jr_started_at := Some 5000,
     jr_worker_id := ''w9'', jr_claim_term := 1, jr_lease_expires_at := Some 30005000\<rparr>"

definition told3 :: Assigned where
  "told3 = assignment queue1 (job_of_row row3)"

definition w9_busy :: worker where
  "w9_busy = the (run_recv (ServerMessage_Assigned told3) w9_open)"

definition w9_idle :: worker where
  "w9_idle = work_end False None (hd (wk_handlers w9_busy)) w9_busy"

definition sv_new :: server where
  "sv_new = Server_New (5 * second) db0"

definition sv_first :: server where
  "sv_first = (case becomeLead 1 (sv_lead sv_new, sv_ctxs sv_new) of (l, h) \<Rightarrow> sv_new\<lparr>sv_lead := l, sv_ctxs := h\<rparr>)"

definition hub_at :: "waiter list \<Rightarrow> Assigned list \<Rightarrow> job_row list \<Rightarrow> hub" where
  "hub_at ws as rs = \<lparr>hb_dis = newDispatcher\<lparr>ds_waiters := ws\<rparr>, hb_chans = (\<lambda>_. [])(0 := as),
     hb_db = db0\<lparr>jobs := rs\<rparr>\<rparr>"

definition sv_at :: "hub \<Rightarrow> ServerMessage list \<Rightarrow> server" where
  "sv_at hb msgs = sv_first\<lparr>sv_hub := hb, sv_streams := [\<lparr>sm_waiter = waiter9, sm_sent = msgs\<rparr>], sv_chans := 1\<rparr>"

definition turn9 :: turn_env where
  "turn9 = \<lparr>tn_db = env_at 6000, tn_send_err = None, tn_push = late_env, tn_lead = leader1,
     tn_ctxs = \<lparr>ctx_made = 2, ctx_cancelled = [0]\<rparr>\<rparr>"

definition row3_done :: job_row where
  "row3_done = row3\<lparr>jr_state := ''done'', jr_done_at := Some 6000, jr_worker_id := '''', jr_lease_expires_at := None\<rparr>"

definition said3 :: ServerMessage where
  "said3 = result_msg seq_engine ''j3'' OUTCOME_ACCEPTED None"

abbreviation line9 :: server where "line9 \<equiv> sv_at (hub_at [waiter9] [] []) []"
abbreviation claimed9 :: server where "claimed9 \<equiv> sv_at (hub_at [] [told3] [row3]) []"
abbreviation sent9 :: server where "sent9 \<equiv> sv_at (hub_at [] [] [row3]) [ServerMessage_Assigned told3]"
abbreviation done9 :: server where
  "done9 \<equiv> sv_at (hub_at [waiter9] [] [row3_done]) [ServerMessage_Assigned told3, said3]"

lemmas sample9 = addr9_def w9_open_def row3_def told3_def w9_busy_def w9_idle_def sv_new_def sv_first_def
  hub_at_def sv_at_def turn9_def row3_done_def said3_def

lemma addr9_one: "addr9 = [''localhost:4040'']"
  by code_simp

lemma w9_boot: "worker_boot (\<lambda>_. '''') (\<lambda>_. None) ''w9'' = Inr (new_worker ''w9'' addr9)"
  using addr9_one by (simp add: worker_boot_def addr9_def)

lemma w9_steps:
  "worker_step (new_worker ''w9'' addr9) Internal w9_open"
  "worker_step w9_open (Receives (ServerMessage_Assigned told3)) w9_busy"
  "worker_step w9_busy (Finishes (hd (wk_handlers w9_busy)) None) w9_idle"
proof -
  show "worker_step (new_worker ''w9'' addr9) Internal w9_open"
    by (rule worker_step.open_ok [where stream_err = None and hello_err = None])
       (simp_all add: worker_ops addr9_one client_def w9_open_def)
  show "worker_step w9_open (Receives (ServerMessage_Assigned told3)) w9_busy"
    by (rule worker_step.receive)
       (simp_all add: worker_ops w9_open_def w9_busy_def told3_def assignment_def)
  have "handle (hn_job (hd (wk_handlers w9_busy))) (hn_attempt (hd (wk_handlers w9_busy))) False = None"
    by (simp add: worker_ops w9_open_def w9_busy_def told3_def assignment_def job_of_row_def row3_def
        new_row_def new_job_def handle_def simulated_def)
  with worker_step.finish [of "hd (wk_handlers w9_busy)" w9_busy False None]
  show "worker_step w9_busy (Finishes (hd (wk_handlers w9_busy)) None) w9_idle"
    by (simp add: worker_ops w9_open_def w9_busy_def told3_def assignment_def w9_idle_def)
qed

lemma w9_facts:
  "wk_id w9_open = ''w9''" "wk_id w9_busy = ''w9''" "wk_id w9_idle = ''w9''"
  "wk_handlers w9_busy = [hd (wk_handlers w9_busy)]" "hn_job (hd (wk_handlers w9_busy)) = job_of_row row3"
  "WorkerMessage_Completed \<lparr>completed_JobId = ''j3''\<rparr> \<in> snd ` set (wk_sent w9_idle)"
  by (simp_all add: worker_ops w9_open_def w9_busy_def told3_def assignment_def w9_idle_def work_end_def
      work_report_def Cause_def cancel_cause_def handle_def simulated_def job_of_row_def row3_def new_row_def
      new_job_def errLeaseLost_def ErrCanceled_def)

lemma enqueue9:
  "Enqueue queue1 ''u'' (env_at 5000) False (push_at 5000) (Some \<lparr>req_Job = Some new_job\<rparr>) (sv_hub line9) =
     (sv_hub claimed9, None, Some \<lparr>resp_JobId = ''j3'', resp_Error = ''''\<rparr>)"
  by (simp add: sample9 waiter9_def newDispatcher_def Enqueue_def EnqueueRequest_GetJob_def Queue_Enqueue_def
      CreateJob_calm env_at_def meet_def new_row_def
      Push_def pushLocked_def Queue_Dequeue_def DequeueJob_def exec_ok
      stmt_state_def stmt_result_def sql_dequeue_def queue1_def seq_engine_def visible_def update_jobs_def
      db0_def new_job_def claim_row_def after_interval_def job_of_row_def ts_in_range_def fits64_def
      DefaultLeaseFor_def second_def make_interval_def armLocked_def chan_send_def assignment_def fun_eq_iff)

lemma deliver9:
  "stream_turn queue1 turn9 GotDelivery (sv_streams claimed9 ! 0) (sv_hub claimed9) =
     Goes (sv_streams sent9 ! 0) (sv_hub sent9)"
  by (simp add: sample9 waiter9_def stream_turn_def send_then_def fun_eq_iff)

lemma settle9:
  "stream_turn queue1 turn9 (GotMessage (WorkerMessage_Completed \<lparr>completed_JobId = ''j3''\<rparr>))
     (sv_streams sent9 ! 0) (sv_hub sent9) = Goes (sv_streams done9 ! 0) (sv_hub done9)"
  by (simp add: sample9 stream_turn_def send_then_def register_then_def answer_def env_at_def meet_def
      Queue_Complete_def Complete_def exec_ok stmt_state_def stmt_result_def update_jobs_def held_by_def
      finish_row_def RowsAffected_def new_row_def new_job_def db0_def register_def pushLocked_def late_env_def
      sv_defs queue1_def Let_def)

text \<open>The run, in three parts: up to the enqueueing, to the running handler, to the done row.\<close>

lemma lead9: "system_step queue1 (new_system (5 * second) db0) ((new_system (5 * second) db0)\<lparr>sy_server := sv_first\<rparr>)"
proof -
  obtain l h where lh: "becomeLead 1 (sv_lead sv_new, sv_ctxs sv_new) = (l, h)" by fastforce
  have first: "sv_first = sv_new\<lparr>sv_lead := l, sv_ctxs := h\<rparr>" by (simp add: sv_first_def lh)
  have "server_step queue1 sv_new (sv_new\<lparr>sv_lead := l, sv_ctxs := h\<rparr>)"
    by (rule server_step.win [OF _ _ lh]) (simp_all add: sv_new_def sv_defs)
  then show ?thesis
    by (intro system_step.lead) (simp_all add: new_system_def first flip: sv_new_def)
qed

lemma connect9: "serving_step P queue1 sv_first line9"
proof -
  have "serving_step P queue1 sv_first (sv_first\<lparr>
      sv_hub := (sv_hub sv_first)\<lparr>hb_dis := newDispatcher\<lparr>ds_waiters := [waiter9]\<rparr>\<rparr>,
      sv_streams := sv_streams sv_first @ [\<lparr>sm_waiter = waiter9, sm_sent = []\<rparr>],
      sv_chans := Suc (sv_chans sv_first), sv_hung := None\<rparr>)"
  proof (rule serving_step.connect)
    show "admit (Inr (WorkerMessage_Hello \<lparr>hello_WorkerId = ''w9''\<rparr>)) (sv_lead sv_first) = Inr ''w9''"
      by (simp add: admit_def GetHello_def GetWorkerId_def sv_first_def sv_new_def sv_defs)
    show "push_env_ok P late_env"
      by (simp add: push_env_ok_def late_env_def calls_in_def env_at_def sv_defs)
    show "register queue1 late_env waiter9 (sv_hub sv_first) =
        ((sv_hub sv_first)\<lparr>hb_dis := newDispatcher\<lparr>ds_waiters := [waiter9]\<rparr>\<rparr>, None)"
      by (simp add: register_def pushLocked_def late_env_def sv_first_def sv_new_def sv_defs)
  qed (simp_all add: sv_first_def sv_new_def sv_defs)
  moreover have "sv_first\<lparr>sv_hub := (sv_hub sv_first)\<lparr>hb_dis := newDispatcher\<lparr>ds_waiters := [waiter9]\<rparr>\<rparr>,
      sv_streams := sv_streams sv_first @ [\<lparr>sm_waiter = waiter9, sm_sent = []\<rparr>],
      sv_chans := Suc (sv_chans sv_first), sv_hung := None\<rparr> = line9"
    by (simp add: sample9 sv_defs db0_def fun_upd_idem)
  ultimately show ?thesis by simp
qed

definition sys_line :: system where
  "sys_line = \<lparr>sy_server = line9, sy_workers = [w9_open], sy_told = [], sy_finished = []\<rparr>"

definition sys_claimed :: system where
  "sys_claimed = sys_line\<lparr>sy_server := claimed9\<rparr>"

definition sys_busy :: system where
  "sys_busy = \<lparr>sy_server = sent9, sy_workers = [w9_busy], sy_told = [(''w9'', told3)], sy_finished = []\<rparr>"

definition sys_done :: system where
  "sys_done = \<lparr>sy_server = done9, sy_workers = [w9_idle], sy_told = [(''w9'', told3), (''w9'', told3)],
     sy_finished = [(''w9'', job_of_row row3)]\<rparr>"

lemmas sys9 = sys_line_def sys_claimed_def sys_busy_def sys_done_def

lemma run_line: "(system_step queue1)\<^sup>*\<^sup>* (new_system (5 * second) db0) sys_line"
proof -
  let ?new = "new_system (5 * second) db0"
  have "system_step queue1 (?new\<lparr>sy_server := sv_first\<rparr>) (?new\<lparr>sy_server := line9\<rparr>)"
    using system_step.serve [where y = "?new\<lparr>sy_server := sv_first\<rparr>", OF _, of queue1 line9] connect9
    by (simp add: new_system_def assignments_def sv_at_def)
  moreover have "system_step queue1 (?new\<lparr>sy_server := line9\<rparr>)
      (?new\<lparr>sy_server := line9, sy_workers := [new_worker ''w9'' addr9]\<rparr>)"
    using system_step.boot [OF w9_boot, of queue1 "?new\<lparr>sy_server := line9\<rparr>"] by (simp add: new_system_def)
  moreover have "system_step queue1 (?new\<lparr>sy_server := line9, sy_workers := [new_worker ''w9'' addr9]\<rparr>) sys_line"
    using system_step.work [where y = "?new\<lparr>sy_server := line9, sy_workers := [new_worker ''w9'' addr9]\<rparr>" and i = 0,
      OF _ refl _, where ev = Internal and w' = w9_open] w9_steps(1)
    by (simp add: new_system_def sys_line_def finished_by_def)
  ultimately show ?thesis using lead9 by (meson rtranclp.rtrancl_into_rtrancl rtranclp.rtrancl_refl)
qed

lemma push_at_ok: "push_env_ok P (push_at t)" "calls_in P (env_at t)"
  by (simp_all add: push_env_ok_def calls_in_def env_at_def)

lemma step_claimed: "system_step queue1 sys_line sys_claimed"
proof -
  have "serving_step (honest [w9_open]) queue1 line9 (line9\<lparr>sv_hub := sv_hub claimed9, sv_hung := None\<rparr>)"
    by (rule serving_step.enqueue [where env = "push_at 5000" and x = "env_at 5000" and uuid = "''u''"
          and req = "Some \<lparr>req_Job = Some new_job\<rparr>"])
       (use enqueue9 in \<open>simp_all add: push_at_ok EnqueueRequest_GetJob_def new_job_def sv_at_def
          sv_first_def sv_new_def sv_defs split: prod.split\<close>)
  moreover have "line9\<lparr>sv_hub := sv_hub claimed9, sv_hung := None\<rparr> = claimed9"
    by (simp add: sv_at_def sv_first_def sv_new_def sv_defs)
  ultimately show ?thesis
    using system_step.serve [where y = sys_line, of queue1 claimed9]
    by (simp add: sys9 assignments_def sv_at_def)
qed

lemma assignments9: "assignments (sv_at hb msgs) = [(''w9'', a). ServerMessage_Assigned a \<leftarrow> msgs]"
  by (simp add: assignments_def sv_at_def waiter9_def)

text \<open>A turn of the one stream.\<close>

lemma turn9_step:
  assumes "stream_turn queue1 turn9 sel (sv_streams (sv_at hb msgs) ! 0) (sv_hub (sv_at hb msgs)) =
      Goes (sv_streams (sv_at hb' msgs') ! 0) (sv_hub (sv_at hb' msgs'))"
    and "heard P queue1 \<lparr>sm_waiter = waiter9, sm_sent = msgs\<rparr> sel"
  shows "serving_step P queue1 (sv_at hb msgs) (sv_at hb' msgs')"
proof -
  let ?s = "sv_at hb msgs"
  have "serving_step P queue1 ?s (?s\<lparr>sv_hub := sv_hub (sv_at hb' msgs'),
      sv_streams := (sv_streams ?s)[0 := sv_streams (sv_at hb' msgs') ! 0]\<rparr>)"
    by (rule serving_step.turn [OF _ _ _ _ _ assms(1)])
       (use assms(2) in \<open>simp_all add: turn9_def push_env_ok_def calls_in_def late_env_def env_at_def sv_at_def
          sv_first_def sv_new_def sv_defs\<close>)
  moreover have "?s\<lparr>sv_hub := sv_hub (sv_at hb' msgs'), sv_streams := (sv_streams ?s)[0 := sv_streams (sv_at hb' msgs') ! 0]\<rparr>
      = sv_at hb' msgs'"
    by (simp add: sv_at_def)
  ultimately show ?thesis by simp
qed

lemma steps_busy: "(system_step queue1)\<^sup>*\<^sup>* sys_claimed sys_busy"
proof -
  let ?told = "sys_claimed\<lparr>sy_server := sent9, sy_told := [(''w9'', told3)]\<rparr>"
  have "serving_step (honest [w9_open]) queue1 claimed9 sent9"
    by (rule turn9_step [OF deliver9]) (simp add: heard_def)
  then have "system_step queue1 sys_claimed ?told"
    using system_step.serve [where y = sys_claimed and s = sent9 and q = queue1] by (simp add: sys9 assignments9)
  moreover have "system_step queue1 ?told sys_busy"
    using system_step.work [where y = ?told and i = 0 and w = w9_open and ev = "Receives (ServerMessage_Assigned told3)"
      and w' = w9_busy and q = queue1] w9_steps(2)
    by (simp add: sys9 finished_by_def w9_facts(1))
  ultimately show ?thesis by (meson rtranclp.rtrancl_into_rtrancl rtranclp.rtrancl_refl)
qed

lemma steps_done: "(system_step queue1)\<^sup>*\<^sup>* sys_busy sys_done"
proof -
  let ?idle = "sys_busy\<lparr>sy_workers := [w9_idle], sy_finished := [(''w9'', job_of_row row3)]\<rparr>"
  have "system_step queue1 sys_busy ?idle"
    using system_step.work [where y = sys_busy and i = 0 and w = w9_busy and w' = w9_idle and q = queue1
      and ev = "Finishes (hd (wk_handlers w9_busy)) None"] w9_steps(3)
    by (simp add: sys9 finished_by_def w9_facts(2,5))
  moreover have "reported [w9_idle] ''j3'' ''w9''"
    using w9_facts(6) by (simp add: reported_def w9_facts(3))
  then have "serving_step (honest [w9_idle]) queue1 sent9 done9"
    by (intro turn9_step [OF settle9]) (simp add: heard_def honest_def waiter9_def)
  then have "system_step queue1 ?idle sys_done"
    using system_step.serve [where y = ?idle and s = done9 and q = queue1]
    by (simp add: sys9 assignments9 said3_def result_msg_def)
  ultimately show ?thesis by (meson rtranclp.rtrancl_into_rtrancl rtranclp.rtrancl_refl)
qed

lemma run_claimed: "(system_step queue1)\<^sup>*\<^sup>* (new_system (5 * second) db0) sys_claimed"
  using run_line step_claimed by (rule rtranclp.rtrancl_into_rtrancl)

lemma run_busy: "(system_step queue1)\<^sup>*\<^sup>* (new_system (5 * second) db0) sys_busy"
  using run_claimed steps_busy by (rule rtranclp_trans)

lemma run_done: "(system_step queue1)\<^sup>*\<^sup>* (new_system (5 * second) db0) sys_done"
  using run_busy steps_done by (rule rtranclp_trans)

section \<open>The database tells the truth about the work\<close>





end
