(* ===== verification/Job_Progress.thy ===== *)
theory Job_Progress
  imports Job_Guarantees
begin

text \<open>
  The queue runs dry: a measure of the work left in the tables, which every operation that moves
  a job makes smaller and every other operation but a new job leaves alone. So the retries, the
  reassignments and the claims of any run that adds no job come to an end.
\<close>

section \<open>The work left\<close>

text \<open>
  A settled job has no move left; a waiting job has two for each attempt it is still entitled to,
  its claim and its end, and a running job has made the first of them.
\<close>

definition row_left :: "job_row \<Rightarrow> nat" where
  "row_left r = (if settled r then 0
     else 2 * nat (max 0 (jr_max_retries r) - jr_retry_count r) + (if jr_state r = ''pending'' then 2 else 1))"

definition work_left :: "db \<Rightarrow> nat" where
  "work_left d = sum_list (map row_left (jobs d))"

fun adds_job :: "store_op \<Rightarrow> bool" where
  "adds_job (OpCreate j) \<longleftrightarrow> True"
| "adds_job _ \<longleftrightarrow> False"

text \<open>How many operations of a sequence move some job: heartbeats and refused calls do not.\<close>

fun moves :: "engine \<Rightarrow> (db_call \<times> store_op) list \<Rightarrow> db \<Rightarrow> nat" where
  "moves e [] d = 0"
| "moves e ((c, op) # xs) d =
     (if map abs_row (jobs (apply_op e c op d)) = map abs_row (jobs d) then 0 else 1)
     + moves e xs (apply_op e c op d)"

lemma row_left_abs: "abs_row r = abs_row r' \<Longrightarrow> job_ok r \<Longrightarrow> job_ok r' \<Longrightarrow> row_left r = row_left r'"
  by (auto simp: abs_row_def row_left_def settled_def job_ok_def split: if_splits)

text \<open>A step of a row either is no move or leaves less work.\<close>

lemma row_step_left:
  assumes "row_step e t ev (Some r) (Some r')" and "event_ok ev" and "job_ok r"
  shows "abs_row r' = abs_row r \<and> row_left r' = row_left r \<or> row_left r' < row_left r"
  using assms(1)
proof (cases rule: row_step.cases)
  case (claim tm w lease)
  then show ?thesis
    by (auto simp: row_left_def settled_def claim_row_def split: sum.splits)
next
  case (finish w)
  then show ?thesis by (auto simp: row_left_def settled_def finish_row_def)
next
  case (fail w m b)
  then show ?thesis using assms(3)
    by (auto simp: row_left_def settled_def retryDecision_def job_ok_def elim!: fail_row_Inr split: if_splits)
next
  case (beat w lease)
  then show ?thesis by (auto simp: row_left_def settled_def abs_row_def beat_row_def split: sum.splits)
next
  case (reap tm)
  then show ?thesis using assms(3)
    by (auto simp: row_left_def settled_def retryDecision_def job_ok_def reapable_def reap_row_def bump_retry_def
        split: sum.splits if_splits)
qed

section \<open>Lifted to the tables\<close>

lemma sum_list_moves:
  assumes "length xs = length ys" and "\<And>k. k < length xs \<Longrightarrow> g (ys ! k) = g (xs ! k) \<and> f (ys ! k) = f (xs ! k)
      \<or> f (ys ! k) < (f (xs ! k) :: nat)"
  shows "sum_list (map f ys) + (if map g ys = map g xs then 0 else 1) \<le> sum_list (map f xs)"
  using assms
proof (induction xs ys rule: list_induct2)
  case (Cons x xs y ys)
  have "g (ys ! k) = g (xs ! k) \<and> f (ys ! k) = f (xs ! k) \<or> f (ys ! k) < f (xs ! k)" if "k < length xs" for k
    using Cons.prems [of "Suc k"] that by simp
  from Cons.IH [OF this] Cons.prems [of 0] show ?case by (auto split: if_splits)
qed simp

lemma apply_op_same_ids:
  assumes "\<not> adds_job op"
  shows "map jr_id (jobs (apply_op e c op d)) = map jr_id (jobs d)"
proof -
  have "map jr_id (jobs (op_effect e c op d)) = map jr_id (jobs d)"
    using assms by (cases op) (simp_all add: dequeue_ids finish_jobs.stmt_ids fail_jobs.stmt_ids
        beat_jobs.stmt_ids reap_jobs.stmt_ids)
  then show ?thesis using apply_op_effect [of e c op d] by auto
qed

lemma apply_op_left:
  assumes "engine_ok e" and "db_ok d" and "op_ok op" and "\<not> adds_job op"
  shows "work_left (apply_op e c op d)
    + (if map abs_row (jobs (apply_op e c op d)) = map abs_row (jobs d) then 0 else 1) \<le> work_left d"
  unfolding work_left_def
proof (rule sum_list_moves)
  let ?d = "apply_op e c op d"
  have ids: "map jr_id (jobs ?d) = map jr_id (jobs d)" using assms(4) by (rule apply_op_same_ids)
  then show len: "length (jobs d) = length (jobs ?d)" by (metis length_map)
  fix k assume k: "k < length (jobs d)"
  let ?r = "jobs d ! k" and ?r' = "jobs ?d ! k"
  have dist: "distinct (map jr_id (jobs d))" using assms(2) by (simp add: db_ok_def)
  with ids have dist': "distinct (map jr_id (jobs ?d))" by simp
  have row: "job_of d (jr_id ?r) = Some ?r" using row_of_in [OF dist] k by simp
  have "jr_id ?r' = jr_id ?r" using arg_cong [OF ids, of "\<lambda>xs. xs ! k"] k len by simp
  then have row': "job_of ?d (jr_id ?r) = Some ?r'" using row_of_in [OF dist', of ?r'] k len by simp
  from apply_op_row [OF assms(1) dist, of c op "jr_id ?r"]
  show "abs_row ?r' = abs_row ?r \<and> row_left ?r' = row_left ?r \<or> row_left ?r' < row_left ?r"
  proof (elim disjE exE conjE)
    assume "job_of ?d (jr_id ?r) = job_of d (jr_id ?r)"
    then show ?thesis by (simp add: row row')
  next
    fix ev assume "op_event op (jr_id ?r) ev"
      and "row_step e (now c) ev (job_of d (jr_id ?r)) (job_of ?d (jr_id ?r))"
    with row_step_left [of e "now c" ev ?r ?r'] op_event_ok [OF assms(3)] db_ok_row [OF assms(2) row]
    show ?thesis by (simp add: row row')
  qed
qed

lemma work_left_0: "(work_left d = 0) = list_all settled (jobs d)"
proof -
  have "(row_left r = 0) = settled r" for r by (simp add: row_left_def)
  then show ?thesis by (simp add: work_left_def list_all_iff)
qed

text \<open>
  C11: The queue runs dry: in any sequence of store operations that adds no job, whatever fails,
  crashes, is reaped, retried or repeated, at most \<open>work_left\<close> operations move a job, two for each
  attempt the jobs in the table are still entitled to; each move leaves less, and nothing is left
  exactly when every job is settled. So claiming, failing and reassigning cannot go on for ever.
\<close>

theorem queue_runs_dry:
  assumes "engine_ok e" and "db_ok d" and "\<forall>x \<in> set xs. op_ok (snd x) \<and> \<not> adds_job (snd x)"
  shows "moves e xs d + work_left (run_ops e xs d) \<le> work_left d
    \<and> (work_left (run_ops e xs d) = 0) = list_all settled (jobs (run_ops e xs d))"
proof -
  have "moves e xs d + work_left (run_ops e xs d) \<le> work_left d"
    using assms(2,3)
  proof (induction xs arbitrary: d)
    case (Cons x xs)
    obtain c op where x: "x = (c, op)" by (cases x)
    with Cons.prems have op: "op_ok op" "\<not> adds_job op" by simp_all
    have "db_ok (apply_op e c op d)" using apply_op_ok [OF assms(1) Cons.prems(1) op(1)] .
    with Cons.IH Cons.prems(2)
    have "moves e xs (apply_op e c op d) + work_left (run_ops e xs (apply_op e c op d))
        \<le> work_left (apply_op e c op d)" by simp
    with apply_op_left [OF assms(1) Cons.prems(1) op, of c] show ?case by (simp add: x)
  qed simp
  then show ?thesis by (simp add: work_left_0)
qed

theorem queue_runs_dry_witness:
  "moves seq_engine (tl sample_run) db1 \<le> 15"
proof -
  have "\<forall>x \<in> set (tl sample_run). op_ok (snd x) \<and> \<not> adds_job (snd x)" by (simp add: sample_run_def)
  moreover have "work_left db1 = 15"
    by (simp add: work_left_def row_left_def settled_def sample_defs)
  ultimately show ?thesis using queue_runs_dry [OF seq_engine_ok db1_ok, of "tl sample_run"] by simp
qed

end
