(* ===== verification/Etcd_Election.thy ===== *)
theory Etcd_Election
  imports Election_Guarantees Config
begin

text \<open>
  \<open>internal/server/election_etcd.go\<close>: the election that leases a key in etcd. The etcd client and
  its \<open>concurrency\<close> package are not part of the repository: their calls are a parameter, and
  what the election relies on, that revisions only grow and that a campaign's key is created
  at a revision above the one the store had, is a named hypothesis.
\<close>

section \<open>The client\<close>

text \<open>
  The calls on a cluster in state \<open>'x\<close>; \<open>'v\<close> is what a call meets (other candidates, failures,
  deadlines). A session is named by a number. A campaign that is still queued returns
  \<^const>\<open>None\<close>, a won one the revision \<open>Rev()\<close> its key was created at. \<open>api_wait\<close> is what becomes of
  the cluster while this node only waits.
\<close>

record ('x, 'v) etcd_api =
  api_New :: "string list \<Rightarrow> goerror option"
  api_Get :: "'v \<Rightarrow> string \<Rightarrow> 'x \<Rightarrow> 'x \<times> goerror option"
  api_NewSession :: "'v \<Rightarrow> int \<Rightarrow> 'x \<Rightarrow> 'x \<times> (goerror + nat)"
  api_Campaign :: "'v \<Rightarrow> nat \<Rightarrow> string \<Rightarrow> string \<Rightarrow> 'x \<Rightarrow> 'x \<times> (goerror + int) option"
  api_Resign :: "'v \<Rightarrow> nat \<Rightarrow> string \<Rightarrow> 'x \<Rightarrow> 'x \<times> goerror option"
  api_Close :: "'v \<Rightarrow> nat \<Rightarrow> 'x \<Rightarrow> 'x \<times> goerror option"
  api_wait :: "'v \<Rightarrow> 'x \<Rightarrow> 'x"

definition etcd_ok :: "('x, 'v) etcd_api \<Rightarrow> ('x \<Rightarrow> int) \<Rightarrow> bool" where
  "etcd_ok api revn \<longleftrightarrow>
     (\<forall>v k x. revn x \<le> revn (fst (api_Get api v k x)))
   \<and> (\<forall>v n x. revn x \<le> revn (fst (api_NewSession api v n x)))
   \<and> (\<forall>v s k m x. revn x \<le> revn (fst (api_Campaign api v s k m x)))
   \<and> (\<forall>v s k m x r. snd (api_Campaign api v s k m x) = Some (Inr r) \<longrightarrow>
        revn x < r \<and> r \<le> revn (fst (api_Campaign api v s k m x)))
   \<and> (\<forall>v s k x. revn x \<le> revn (fst (api_Resign api v s k x)))
   \<and> (\<forall>v s x. revn x \<le> revn (fst (api_Close api v s x)))
   \<and> (\<forall>v x. revn x \<le> revn (api_wait api v x))"

section \<open>The election\<close>

definition electionKey :: string where "electionKey = ''/distq/leadership''"
definition dialTimeout :: dur where "dialTimeout = 5 * second"
definition campaignRetry :: dur where "campaignRetry = 2 * second"

record etcdElection =
  ee_nodeID :: string
  ee_key :: string
  ee_ttl :: int

text \<open>
  The part of the struct that changes, \<open>session\<close> and \<open>elect\<close>, with the cluster and the sessions
  this node has opened and not closed. An election object is named by its session.
\<close>

record 'x etcd_state =
  es_cluster :: 'x
  es_session :: "nat option"
  es_elect :: "nat option"
  es_open :: "nat list"

text \<open>
  \<open>int(lease.Seconds())\<close> goes through a float64; for leases below \<open>2\<^sup>2\<^sup>3\<close> seconds the float keeps
  the whole seconds apart from the nanoseconds and the conversion is the truncated quotient.
\<close>

definition newEtcdElection ::
  "('x, 'v) etcd_api \<Rightarrow> string \<Rightarrow> string list \<Rightarrow> string \<Rightarrow> dur \<Rightarrow> goerror + etcdElection" where
  "newEtcdElection api uuid endpoints key lease = (case api_New api endpoints of
      Some err \<Rightarrow> Inl (Wrap (''connect to etcd at '' @ strings_Join endpoints '','') err)
    | None \<Rightarrow> let ttl = go_div lease second in
        Inr \<lparr>ee_nodeID = newNodeID uuid, ee_key = key, ee_ttl = (if ttl < 1 then 1 else ttl)\<rparr>)"

definition NewEtcdElection ::
  "('x, 'v) etcd_api \<Rightarrow> string \<Rightarrow> string list \<Rightarrow> dur \<Rightarrow> goerror + etcdElection" where
  "NewEtcdElection api uuid endpoints lease = newEtcdElection api uuid endpoints electionKey lease"

text \<open>\<open>session.Close()\<close> stops the keepalive whether or not the lease could be revoked.\<close>

definition close_one :: "('x, 'v) etcd_api \<Rightarrow> 'v \<Rightarrow> nat \<Rightarrow> 'x etcd_state \<Rightarrow> 'x etcd_state" where
  "close_one api v s st = st\<lparr>es_cluster := fst (api_Close api v s (es_cluster st)),
     es_open := removeAll s (es_open st)\<rparr>"

definition closeSession :: "('x, 'v) etcd_api \<Rightarrow> 'v \<Rightarrow> 'x etcd_state \<Rightarrow> 'x etcd_state" where
  "closeSession api v st = (case es_session st of
      None \<Rightarrow> st
    | Some s \<Rightarrow> (close_one api v s st)\<lparr>es_session := None, es_elect := None\<rparr>)"

definition campaignOnce ::
  "('x, 'v) etcd_api \<Rightarrow> etcdElection \<Rightarrow> 'v \<Rightarrow> 'x etcd_state \<Rightarrow> 'x etcd_state \<times> (goerror + int) option" where
  "campaignOnce api e v st0 = (let st = closeSession api v st0 in
     case api_Get api v (ee_key e) (es_cluster st) of
       (x, Some err) \<Rightarrow> (st\<lparr>es_cluster := x\<rparr>, Some (Inl (Wrap ''etcd unreachable'' err)))
     | (x, None) \<Rightarrow> (case api_NewSession api v (ee_ttl e) x of
         (x1, Inl err) \<Rightarrow> (st\<lparr>es_cluster := x1\<rparr>, Some (Inl (Wrap ''etcd session'' err)))
       | (x1, Inr s) \<Rightarrow>
           let st1 = st\<lparr>es_open := s # es_open st\<rparr> in
           (case api_Campaign api v s (ee_key e) (ee_nodeID e) x1 of
              (x2, None) \<Rightarrow> (st1\<lparr>es_cluster := x2\<rparr>, None)
            | (x2, Some (Inl err)) \<Rightarrow> (close_one api v s (st1\<lparr>es_cluster := x2\<rparr>),
                Some (Inl (Wrap ''etcd campaign'' err)))
            | (x2, Some (Inr r)) \<Rightarrow>
                (st1\<lparr>es_cluster := x2, es_session := Some s, es_elect := Some s\<rparr>, Some (Inr r)))))"

text \<open>
  A round of \<open>Campaign\<close>: what \<open>campaignOnce\<close> meets, whether the context has ended when it comes
  back, and whether the \<open>select\<close> takes the context's \<open>Done\<close> rather than the timer.
\<close>

record 'v attempt =
  at_env :: 'v
  at_ctx_err :: bool
  at_done :: bool

fun etcd_Campaign :: "('x, 'v) etcd_api \<Rightarrow> etcdElection \<Rightarrow> 'v attempt list \<Rightarrow> 'x etcd_state \<Rightarrow>
    'x etcd_state \<times> (goerror + int) option" where
  "etcd_Campaign api e [] st = (st, None)"
| "etcd_Campaign api e (a # as) st = (case campaignOnce api e (at_env a) st of
      (st', None) \<Rightarrow> (st', None)
    | (st', Some res) \<Rightarrow>
        if at_ctx_err a then (st', Some (Inl ErrCanceled))
        else (case res of
            Inr tm \<Rightarrow> (st', Some (Inr tm))
          | Inl err \<Rightarrow> if at_done a then (st', Some (Inl ErrCanceled)) else etcd_Campaign api e as st'))"

text \<open>
  What ends a \<open>Hold\<close>, if anything has yet. The loop calls it after a campaign that returned a
  term, so there is a session (\<open>etcd_Campaign_session\<close> below); without one the call would not
  come back.
\<close>

datatype hold_end = HoldCtxDone | HoldSessionDone

fun etcd_Hold :: "('x, 'v) etcd_api \<Rightarrow> 'v \<times> hold_end option \<Rightarrow> 'x etcd_state \<Rightarrow>
    'x etcd_state \<times> bool option" where
  "etcd_Hold api (v, h) st = (st\<lparr>es_cluster := api_wait api v (es_cluster st)\<rparr>,
     (if es_session st = None then None
      else map_option (\<lambda>x. x = HoldSessionDone) h))"

definition etcd_Resign :: "('x, 'v) etcd_api \<Rightarrow> etcdElection \<Rightarrow> 'v \<Rightarrow> 'x etcd_state \<Rightarrow>
    'x etcd_state \<times> goerror option" where
  "etcd_Resign api e v st = (case es_elect st of
      None \<Rightarrow> (st, None)
    | Some s \<Rightarrow> (case api_Resign api v s (ee_key e) (es_cluster st) of
        (x, err) \<Rightarrow> (closeSession api v (st\<lparr>es_cluster := x\<rparr>), err)))"

definition etcd_election :: "('x, 'v) etcd_api \<Rightarrow> etcdElection \<Rightarrow>
    ('x etcd_state, 'v attempt list, 'v \<times> hold_end option, 'v) Election" where
  "etcd_election api e = \<lparr>el_Campaign = etcd_Campaign api e, el_Hold = etcd_Hold api,
     el_Resign = etcd_Resign api e\<rparr>"

section \<open>Sessions are not leaked\<close>

text \<open>
  Of the sessions this node has opened, at most the one of the reign in progress, or of the
  campaign it is queued with, is still open.
\<close>

definition sessions_ok :: "'x etcd_state \<Rightarrow> bool" where
  "sessions_ok st \<longleftrightarrow> es_elect st = es_session st
     \<and> es_open st = (case es_session st of None \<Rightarrow> [] | Some s \<Rightarrow> [s])"

lemma closeSession_ok:
  "sessions_ok st \<Longrightarrow> sessions_ok (closeSession api v st) \<and> es_session (closeSession api v st) = None
   \<and> es_open (closeSession api v st) = []"
  by (auto simp: sessions_ok_def closeSession_def close_one_def split: option.splits)

lemma campaignOnce_ok:
  assumes "sessions_ok st" and "campaignOnce api e v st = (st', res)"
  shows "case res of
      None \<Rightarrow> es_session st' = None \<and> length (es_open st') = 1
    | Some (Inl err) \<Rightarrow> sessions_ok st' \<and> es_session st' = None
    | Some (Inr r) \<Rightarrow> sessions_ok st' \<and> es_session st' \<noteq> None"
  using assms(2) closeSession_ok [OF assms(1), of api v]
  by (auto simp: campaignOnce_def Let_def sessions_ok_def close_one_def
      split: prod.splits option.splits sum.splits)

lemma etcd_Campaign_ok:
  assumes "sessions_ok st" and "etcd_Campaign api e as st = (st', res)"
  shows "length (es_open st') \<le> 1 \<and> (res \<noteq> None \<longrightarrow> sessions_ok st')"
  using assms
proof (induction as arbitrary: st)
  case (Cons a as)
  obtain st1 r where once: "campaignOnce api e (at_env a) st = (st1, r)" by fastforce
  note ok = campaignOnce_ok [OF Cons.prems(1) once]
  from ok have open1: "length (es_open st1) \<le> 1"
    by (auto simp: sessions_ok_def split: option.splits sum.splits)
  show ?case
    using Cons.IH [of st1] Cons.prems(2) once ok open1
    by (auto split: option.splits sum.splits if_splits)
qed (auto simp: sessions_ok_def split: option.splits)

text \<open>A campaign that returned a term has a session, so the \<open>Hold\<close> after it has one to wait for.\<close>

lemma etcd_Campaign_session:
  "etcd_Campaign api e as st = (st', Some (Inr tm)) \<Longrightarrow> es_session st' \<noteq> None"
proof (induction as arbitrary: st)
  case (Cons a as)
  obtain st1 r where once: "campaignOnce api e (at_env a) st = (st1, r)" by fastforce
  have "es_session st1 \<noteq> None" if "r = Some (Inr tm)"
    using once that by (auto simp: campaignOnce_def Let_def split: prod.splits option.splits sum.splits)
  with Cons once show ?case by (auto split: option.splits sum.splits if_splits)
qed simp

lemma sessions_ok_cluster [simp]: "sessions_ok (st\<lparr>es_cluster := x\<rparr>) = sessions_ok st"
  by (simp add: sessions_ok_def)

lemma etcd_Hold_ok:
  "es_open (fst (etcd_Hold api vh st)) = es_open st"
  "sessions_ok (fst (etcd_Hold api vh st)) = sessions_ok st"
  by (cases vh, simp)+

lemma etcd_Resign_ok:
  assumes "sessions_ok st"
  shows "sessions_ok (fst (etcd_Resign api e v st))" and "es_open (fst (etcd_Resign api e v st)) = []"
  using assms closeSession_ok [of "st\<lparr>es_cluster := x\<rparr>" api v for x]
  by (auto simp: etcd_Resign_def sessions_ok_def split: option.splits prod.splits)

lemma etcd_Run_loop_ok:
  assumes "sessions_ok (nd_elect st)"
  shows "length (es_open (nd_elect (fst (Run_loop (etcd_election api e) es st)))) \<le> 1
    \<and> (snd (Run_loop (etcd_election api e) es st) \<longrightarrow>
         sessions_ok (nd_elect (fst (Run_loop (etcd_election api e) es st))))"
  using assms
proof (induction es arbitrary: st)
  case Nil
  then show ?case by (auto simp: sessions_ok_def split: option.splits)
next
  case (Cons x es)
  obtain stop ce he where x: "x = (stop, ce, he)" by (cases x)
  obtain s res where camp: "etcd_Campaign api e ce (nd_elect st) = (s, res)" by fastforce
  note ok = etcd_Campaign_ok [OF Cons.prems camp]
  obtain s' b where hold: "etcd_Hold api he s = (s', b)" by fastforce
  have s': "es_open s' = es_open s" "sessions_ok s' = sessions_ok s"
    using etcd_Hold_ok [of api he s] hold by simp_all
  have now: "length (es_open (nd_elect st)) \<le> 1"
    using Cons.prems by (auto simp: sessions_ok_def split: option.splits)
  show ?case
    using Cons.IH [of "on_lead demote ((start_reign tm (st\<lparr>nd_elect := s\<rparr>))\<lparr>nd_elect := s'\<rparr>)" for tm]
      Cons.prems x camp ok hold s' now
    by (auto simp: etcd_election_def Let_def split: option.splits sum.splits bool.splits)
qed

section \<open>Terms are revisions\<close>

lemma etcd_okD:
  assumes "etcd_ok api revn"
  shows "revn x \<le> revn (fst (api_Get api v k x))" "revn x \<le> revn (fst (api_NewSession api v n x))"
    and "revn x \<le> revn (fst (api_Campaign api v s k m x))"
    and "snd (api_Campaign api v s k m x) = Some (Inr r) \<Longrightarrow>
      revn x < r \<and> r \<le> revn (fst (api_Campaign api v s k m x))"
    and "revn x \<le> revn (fst (api_Resign api v s k x))" "revn x \<le> revn (fst (api_Close api v s x))"
    and "revn x \<le> revn (api_wait api v x)"
  using assms by (simp_all add: etcd_ok_def)

lemma close_one_rev: "etcd_ok api revn \<Longrightarrow> revn (es_cluster st) \<le> revn (es_cluster (close_one api v s st))"
  by (simp add: close_one_def etcd_okD)

lemma closeSession_rev: "etcd_ok api revn \<Longrightarrow> revn (es_cluster st) \<le> revn (es_cluster (closeSession api v st))"
  by (auto simp: closeSession_def close_one_rev split: option.split)

lemma campaignOnce_rev:
  assumes "etcd_ok api revn" and "campaignOnce api e v st = (st', res)"
  shows "revn (es_cluster st) \<le> revn (es_cluster st')
    \<and> (\<forall>r. res = Some (Inr r) \<longrightarrow> revn (es_cluster st) < r \<and> r \<le> revn (es_cluster st'))"
proof -
  let ?st = "closeSession api v st"
  note mono = etcd_okD [OF assms(1)]
  have 0: "revn (es_cluster st) \<le> revn (es_cluster ?st)" by (rule closeSession_rev [OF assms(1)])
  obtain x g where get: "api_Get api v (ee_key e) (es_cluster ?st) = (x, g)" by fastforce
  obtain x1 sn where new: "api_NewSession api v (ee_ttl e) x = (x1, sn)" by fastforce
  have 1: "revn (es_cluster ?st) \<le> revn x" "revn x \<le> revn x1"
    using mono(1) [of "es_cluster ?st" v "ee_key e"] mono(2) [of x v "ee_ttl e"] get new by simp_all
  show ?thesis
  proof (cases "g = None \<and> (\<exists>s. sn = Inr s)")
    case False
    with assms(2) get new 0 1 show ?thesis
      by (auto simp: campaignOnce_def Let_def split: option.splits sum.splits)
  next
    case True
    then obtain s where ok: "g = None" "sn = Inr s" by blast
    obtain x2 c where camp: "api_Campaign api v s (ee_key e) (ee_nodeID e) x1 = (x2, c)" by fastforce
    have 2: "revn x1 \<le> revn x2" "\<And>r. c = Some (Inr r) \<Longrightarrow> revn x1 < r \<and> r \<le> revn x2"
      using mono(3) [of x1 v s "ee_key e" "ee_nodeID e"]
        mono(4) [of v s "ee_key e" "ee_nodeID e" x1] camp by simp_all
    with assms(2) get new ok camp 0 1 mono(6) [of x2 v s] show ?thesis
      by (fastforce simp: campaignOnce_def Let_def close_one_def split: option.splits sum.splits)
  qed
qed

lemma etcd_Campaign_rev:
  assumes "etcd_ok api revn" and "etcd_Campaign api e as st = (st', res)"
  shows "revn (es_cluster st) \<le> revn (es_cluster st')
    \<and> (\<forall>r. res = Some (Inr r) \<longrightarrow> revn (es_cluster st) < r \<and> r \<le> revn (es_cluster st'))"
  using assms(2)
proof (induction as arbitrary: st)
  case (Cons a as)
  obtain st1 r where once: "campaignOnce api e (at_env a) st = (st1, r)" by fastforce
  show ?case
    using Cons.IH [of st1] Cons.prems once campaignOnce_rev [OF assms(1) once]
    by (fastforce split: option.splits sum.splits if_splits)
qed simp

lemma etcd_Resign_rev:
  assumes "etcd_ok api revn"
  shows "revn (es_cluster st) \<le> revn (es_cluster (fst (etcd_Resign api e v st)))"
proof (cases "es_elect st")
  case (Some s)
  obtain x err where res: "api_Resign api v s (ee_key e) (es_cluster st) = (x, err)" by fastforce
  have "revn (es_cluster st) \<le> revn x"
    using etcd_okD(5) [OF assms, of "es_cluster st" v s "ee_key e"] res by simp
  also have "\<dots> \<le> revn (es_cluster (closeSession api v (st\<lparr>es_cluster := x\<rparr>)))"
    using closeSession_rev [OF assms, of "st\<lparr>es_cluster := x\<rparr>" v] by simp
  finally show ?thesis using Some res by (simp add: etcd_Resign_def)
qed (simp add: etcd_Resign_def)

interpretation etcd_elect: election "etcd_election api e" "\<lambda>_. etcd_ok api revn"
    "\<lambda>st. revn (es_cluster st)"
  for api :: "('x, 'v) etcd_api" and e and revn
proof (unfold_locales, unfold etcd_election_def Election.simps)
  fix s :: "'x etcd_state" and ce and he :: "'v \<times> hold_end option" and re s' tm
  assume ok: "etcd_ok api revn"
  show "etcd_ok api revn \<and> revn (es_cluster s) \<le> revn (es_cluster (fst (etcd_Campaign api e ce s)))"
    using ok etcd_Campaign_rev [OF ok, of e ce s] by (cases "etcd_Campaign api e ce s") simp
  show "etcd_ok api revn \<and> revn (es_cluster s) \<le> revn (es_cluster (fst (etcd_Hold api he s)))"
    using ok by (cases he) (simp add: etcd_okD)
  show "etcd_ok api revn \<and> revn (es_cluster s) \<le> revn (es_cluster (fst (etcd_Resign api e re s)))"
    using ok etcd_Resign_rev [OF ok] by simp
  show "revn (es_cluster s) < tm \<and> tm \<le> revn (es_cluster s')"
    if "etcd_Campaign api e ce s = (s', Some (Inr tm))"
    using etcd_Campaign_rev [OF ok that] by simp
qed

section \<open>What a node that elects in etcd guarantees\<close>

definition new_etcd_state :: "'x \<Rightarrow> 'x etcd_state" where
  "new_etcd_state x = \<lparr>es_cluster = x, es_session = None, es_elect = None, es_open = []\<rparr>"

lemma new_etcd_state_ok [simp]:
  "sessions_ok (new_etcd_state x)" "es_cluster (new_etcd_state x) = x"
  by (simp_all add: sessions_ok_def new_etcd_state_def)

text \<open>
  A cluster with a single candidate, for the concrete runs: its state is its revision, which
  also numbers the sessions.
\<close>

definition etcd_sim :: "(int, unit) etcd_api" where
  "etcd_sim = \<lparr>api_New = (\<lambda>_. None), api_Get = (\<lambda>_ _ x. (x, None)),
     api_NewSession = (\<lambda>_ _ x. (x, Inr (nat x))), api_Campaign = (\<lambda>_ _ _ _ x. (x + 1, Some (Inr (x + 1)))),
     api_Resign = (\<lambda>_ _ _ x. (x + 1, None)), api_Close = (\<lambda>_ _ x. (x + 1, None)),
     api_wait = (\<lambda>_ x. x)\<rparr>"

definition etcd1 :: etcdElection where
  "etcd1 = \<lparr>ee_nodeID = ''node-one'', ee_key = electionKey, ee_ttl = 30\<rparr>"

lemma etcd_sim_ok: "etcd_ok etcd_sim (\<lambda>x. x)"
  by (simp add: etcd_ok_def etcd_sim_def)

text \<open>A node that wins, is told that its session ended, wins again and is then shut down.\<close>

definition etcd_rounds :: "(bool \<times> unit attempt list \<times> unit \<times> hold_end option) list" where
  "etcd_rounds = (let win = [\<lparr>at_env = (), at_ctx_err = False, at_done = False\<rparr>] in
     [(False, win, (), Some HoldSessionDone), (False, win, (), Some HoldCtxDone)])"

lemmas etcd_run_simps = etcd_rounds_def etcd_election_def campaignOnce_def closeSession_def close_one_def
  etcd_sim_def new_etcd_state_def new_node_def start_reign_def on_lead_def leadership_defs Let_def

text \<open>
  C31: The etcd election gives the leadership loop what the PostgreSQL one does, as far as etcd's
  revisions grow: the node leads exactly while the context of its reign is live, the terms of
  its reigns strictly increase and lie above the revision the cluster had when it started,
  its term while it leads is that of its last win, every reaper of an earlier reign has been
  cancelled, and once the loop is over it does not lead and says so.
\<close>

theorem etcd_reigns:
  assumes "etcd_ok api revn"
    and "st = Run (etcd_election api e) es re (new_node (new_etcd_state x) reapEvery)"
  shows "Leading (nd_lead st) = (\<not> ctx_done (nd_ctxs st) (LeadCtx (nd_lead st)))
    \<and> sorted_wrt (>) (nd_terms st @ [revn x])
    \<and> (Leading (nd_lead st) \<longrightarrow> nd_terms st \<noteq> [] \<and> Term (nd_lead st) = hd (nd_terms st))
    \<and> (\<forall>c \<in> set (nd_reapers st).
         c = LeadCtx (nd_lead st) \<and> Leading (nd_lead st) \<or> ctx_done (nd_ctxs st) c)
    \<and> (snd (Run_loop (etcd_election api e) es (new_node (new_etcd_state x) reapEvery)) \<longrightarrow>
         \<not> Leading (nd_lead st) \<and> ld_stopped (nd_lead st))"
proof -
  let ?last = "\<lambda>s. revn (es_cluster s)" and ?new = "new_node (new_etcd_state x) reapEvery"
  have new: "node_ok ?last (revn x) ?new" "etcd_ok api revn" "\<not> Leading (nd_lead ?new)"
    using new_node_ok(1) [of ?last "new_etcd_state x"] assms(1) by (simp_all add: new_node_ok(2))
  note run = etcd_elect.Run_ok [OF new, of e es re, folded assms(2)]
  from run(2) have "snd (Run_loop (etcd_election api e) es ?new) \<longrightarrow>
      \<not> Leading (nd_lead st) \<and> ld_stopped (nd_lead st)" by (rule impI)
  then show ?thesis by (intro conjI node_okD [OF run(1)])
qed

theorem etcd_reigns_witness:
  "nd_terms (Run (etcd_election etcd_sim etcd1) etcd_rounds () (new_node (new_etcd_state 7) second)) = [10, 8]
   \<and> sorted_wrt (>) ([10, 8] @ [7::int])"
proof -
  have terms: "nd_terms (Run (etcd_election etcd_sim etcd1) etcd_rounds ()
      (new_node (new_etcd_state 7) second)) = [10, 8]"
    by (simp add: Run_def resign_def close_stopped_def etcd_Resign_def etcd_run_simps)
  note reigns = etcd_reigns [OF etcd_sim_ok refl, of etcd1 etcd_rounds "()" 7 second, unfolded terms]
  show ?thesis using terms conjunct1 [OF conjunct2 [OF reigns]] by (rule conjI)
qed

text \<open>
  C32: The etcd election does not leak sessions: whatever it meets, a node has at most one
  session open, and when the loop is left while the node leads, the resignation closes that
  one too, even if deleting the leader key failed. In particular \<open>Hold\<close> always has a session
  to wait for when a campaign returned a term.
\<close>

theorem etcd_sessions:
  assumes "new = new_node (new_etcd_state x) reapEvery"
  shows "length (es_open (nd_elect (Run (etcd_election api e) es re new))) \<le> 1
    \<and> (snd (Run_loop (etcd_election api e) es new) \<and>
       Leading (nd_lead (fst (Run_loop (etcd_election api e) es new))) \<longrightarrow>
         es_open (nd_elect (Run (etcd_election api e) es re new)) = []
       \<and> es_session (nd_elect (Run (etcd_election api e) es re new)) = None)
    \<and> (etcd_Campaign api e as st = (st', Some (Inr tm)) \<longrightarrow> es_session st' \<noteq> None)"
proof -
  obtain s b where loop: "Run_loop (etcd_election api e) es new = (s, b)" by fastforce
  have "sessions_ok (nd_elect new)" by (simp add: assms new_node_ok(3))
  from etcd_Run_loop_ok [OF this, of api e es] loop
  have ok: "length (es_open (nd_elect s)) \<le> 1" "b \<Longrightarrow> sessions_ok (nd_elect s)" by simp_all
  have oper: "el_Resign (etcd_election api e) = etcd_Resign api e" by (simp add: etcd_election_def)
  have run: "nd_elect (Run (etcd_election api e) es re new) =
      (if b \<and> Leading (nd_lead s) then fst (etcd_Resign api e re (nd_elect s)) else nd_elect s)"
    by (cases b) (simp_all add: Run_def loop resign_def close_stopped_def Let_def oper)
  have left: "es_open r = [] \<and> es_session r = None"
    if "b" and "r = fst (etcd_Resign api e re (nd_elect s))" for r
    using etcd_Resign_ok [OF ok(2), of api e re] that
    by (auto simp: sessions_ok_def split: option.splits)
  show ?thesis
  proof (intro conjI impI)
    show "length (es_open (nd_elect (Run (etcd_election api e) es re new))) \<le> 1"
      using ok(1) left unfolding run by (cases b) simp_all
    show "es_session st' \<noteq> None" if "etcd_Campaign api e as st = (st', Some (Inr tm))"
      using that by (rule etcd_Campaign_session)
  qed (use left in \<open>simp_all add: run loop\<close>)
qed

theorem etcd_sessions_witness:
  "es_open (nd_elect (Run (etcd_election etcd_sim etcd1) etcd_rounds ()
     (new_node (new_etcd_state 7) second))) = []"
proof -
  have "snd (Run_loop (etcd_election etcd_sim etcd1) etcd_rounds (new_node (new_etcd_state 7) second))
      \<and> Leading (nd_lead (fst (Run_loop (etcd_election etcd_sim etcd1) etcd_rounds
          (new_node (new_etcd_state 7) second))))"
    by (simp add: etcd_run_simps)
  with etcd_sessions [OF refl, of etcd_sim etcd1 etcd_rounds "()" 7 second] show ?thesis by blast
qed

text \<open>
  The resignation is only for a node that leads. A campaign that is won while the context
  ends returns the context's error and keeps its session, and a reign whose session ends
  together with the context counts as deposed: in both cases the loop is left with the
  leader key in place, and the cluster waits until the session's lease lapses.
\<close>

lemma etcd_shutdown_keeps_key:
  assumes "campaignOnce api e (at_env a) (new_etcd_state x) = (s, Some (Inr tm))"
  shows "at_ctx_err a \<Longrightarrow>
      nd_elect (Run (etcd_election api e) [(False, [a], v, h)] re (new_node (new_etcd_state x) n)) = s"
    and "\<not> at_ctx_err a \<Longrightarrow>
      nd_elect (Run (etcd_election api e) [(False, [a], v, Some HoldSessionDone), (True, cs, vh)] re
        (new_node (new_etcd_state x) n)) = s\<lparr>es_cluster := api_wait api v (es_cluster s)\<rparr>"
    and "es_open s \<noteq> []"
proof -
  from campaignOnce_ok [OF _ assms] have ok: "sessions_ok s" "es_session s \<noteq> None" by simp_all
  then show "es_open s \<noteq> []" by (auto simp: sessions_ok_def)
  have idle: "\<not> Leading (nd_lead (on_lead demote st))" for st :: "'a etcd_state node"
    by (simp add: on_lead_def leadership_defs split: prod.split)
  show "nd_elect (Run (etcd_election api e) [(False, [a], v, h)] re (new_node (new_etcd_state x) n)) = s"
    if "at_ctx_err a"
    using that assms new_node_ok(2) [of "new_etcd_state x" n]
    by (simp add: Run_def etcd_election_def new_node_ok(3) resign_def Let_def close_stopped_def)
  show "nd_elect (Run (etcd_election api e) [(False, [a], v, Some HoldSessionDone), (True, cs, vh)] re
        (new_node (new_etcd_state x) n)) = s\<lparr>es_cluster := api_wait api v (es_cluster s)\<rparr>"
    if "\<not> at_ctx_err a"
    using that assms ok(2) idle
    by (simp add: Run_def etcd_election_def new_node_ok(3) resign_def Let_def close_stopped_def)
qed

text \<open>
  The session's time to live is at least one second, so never the zero that would ask for
  a lease without end, and for a lease of a second or more it is the lease rounded down to
  whole seconds: a node that stops renewing drops out within the lease and less than a second
  earlier. A client that cannot be created is an error naming the endpoints, and no election.
\<close>

lemma etcd_ttl_bounds:
  "(case NewEtcdElection api uuid endpoints lease of
      Inl err \<Rightarrow> \<exists>cause. api_New api endpoints = Some cause
        \<and> err = Wrap (''connect to etcd at '' @ strings_Join endpoints '','') cause
    | Inr e \<Rightarrow> api_New api endpoints = None \<and> 1 \<le> ee_ttl e \<and> ee_key e = electionKey
        \<and> length (ee_nodeID e) \<le> 8
        \<and> (second \<le> lease \<longrightarrow> ee_ttl e * second \<le> lease \<and> lease < (ee_ttl e + 1) * second))"
proof -
  have whole: "go_div lease second * second \<le> lease \<and> lease < (go_div lease second + 1) * second
      \<and> 1 \<le> go_div lease second" if "second \<le> lease"
  proof -
    have pos: "0 < second" by (simp add: second_def)
    with that have "go_div lease second = lease div second" by (simp add: go_div_nonneg)
    moreover have "lease div second * second \<le> lease" "lease < (lease div second + 1) * second"
      using pos by (simp_all add: minus_mod_eq_div_mult [symmetric] distrib_right)
    moreover have "1 \<le> lease div second" using pos that by (simp add: pos_imp_zdiv_pos_iff int_one_le_iff_zero_less)
    ultimately show ?thesis by simp
  qed
  then show ?thesis
    by (auto simp: NewEtcdElection_def newEtcdElection_def newNodeID_def Let_def split: option.split)
qed

end
