(* ===== verification/Commands.thy ===== *)
theory Commands
  imports Etcd_Election Strconv
begin

text \<open>
  The remaining commands. \<open>cmd/distq/main.go\<close>: the choice of the election and the life of the
  server process as the sequence of what it opens, starts, waits for and closes.
  \<open>cmd/producer/main.go\<close>: its arguments and its loop. \<open>tools/fenceprobe/main.go\<close>: what it sends and
  the verdict it prints.
\<close>

section \<open>The server process\<close>

definition leaseFor :: dur where "leaseFor = 30 * second"
definition reapInterval :: dur where "reapInterval = 5 * second"
definition shutdownGrace :: dur where "shutdownGrace = 10 * second"

datatype chosen = ChosePostgres postgresElection | ChoseEtcd etcdElection

definition newElection ::
  "('x, 'v) etcd_api \<Rightarrow> environ \<Rightarrow> string \<Rightarrow> Queue \<Rightarrow> dur \<Rightarrow> goerror + chosen" where
  "newElection api getenv uuid q lease = (let endpoints = EtcdEndpoints getenv in
     if length endpoints = 0 then Inr (ChosePostgres (NewPostgresElection uuid q lease))
     else (case NewEtcdElection api uuid endpoints lease of
         Inl err \<Rightarrow> Inl err
       | Inr elect \<Rightarrow> Inr (ChoseEtcd elect)))"

datatype proc_step =
    OpenStore | OpenElect chosen | RunLeadership | ListenOn string | Serve
  | GracefulStop | ForceStop | AwaitStopped | StopSignals | CloseElect | CloseStore

definition gracefulStop :: "bool \<Rightarrow> proc_step list" where
  "gracefulStop drained = (if drained then [GracefulStop] else [GracefulStop, ForceStop])"

text \<open>
  What the process meets: the environment, how opening the store goes, the fresh identifier,
  how listening goes, the error \<open>Serve\<close> returns if that is what wakes the process rather than a
  signal, and whether the calls in flight drain within \<open>shutdownGrace\<close>.
\<close>

record startup =
  su_getenv :: environ
  su_open_err :: "goerror option"
  su_calls :: "db_call \<times> db_call \<times> db_call"
  su_engine :: engine
  su_uuid :: string
  su_listen_err :: "goerror option"
  su_serve_err :: "goerror option"
  su_drained :: bool

text \<open>\<open>run\<close> from \<open>signal.NotifyContext\<close> on, without the deferred calls.\<close>

definition run_listening :: "startup \<Rightarrow> proc_step list \<times> goerror option" where
  "run_listening su = (let addr = ListenAddr (su_getenv su) in case su_listen_err su of
      Some err \<Rightarrow> ([RunLeadership, ListenOn addr], Some (Wrap (''failed to listen on '' @ addr) err))
    | None \<Rightarrow> (case su_serve_err su of
        Some err \<Rightarrow> ([RunLeadership, ListenOn addr, Serve], Some (Wrap ''grpc server stopped'' err))
      | None \<Rightarrow> ([RunLeadership, ListenOn addr, Serve] @ gracefulStop (su_drained su) @ [AwaitStopped], None)))"

text \<open>The deferred calls run in the reverse order, whatever \<open>run\<close> returns.\<close>

definition server_process ::
  "('x, 'v) etcd_api \<Rightarrow> startup \<Rightarrow> raw_db \<Rightarrow> raw_db \<times> proc_step list \<times> goerror option" where
  "server_process api su d = (case PostgresDSN (su_getenv su) of
      Inl err \<Rightarrow> (d, [], Some err)
    | Inr dsn \<Rightarrow> (case su_calls su of (c1, c2, c3) \<Rightarrow>
        (case NewPostgresStore (su_open_err su) c1 c2 c3 d of
           (d', Some err) \<Rightarrow> (d', [], Some (Wrap ''failed to connect to postgres'' err))
         | (d', None) \<Rightarrow>
             (case Queue_New \<lparr>opt_Store = Some (su_engine su), opt_RetryBaseDelay = 0, opt_LeaseFor = leaseFor\<rparr> of
                Inl err \<Rightarrow> (d', [OpenStore, CloseStore], Some (Wrap ''failed to create queue'' err))
              | Inr q \<Rightarrow> (case newElection api (su_getenv su) (su_uuid su) q leaseFor of
                  Inl err \<Rightarrow> (d', [OpenStore, CloseStore], Some err)
                | Inr elect \<Rightarrow> (case run_listening su of
                    (steps, err) \<Rightarrow> (d', [OpenStore, OpenElect elect] @ steps @
                      [StopSignals, CloseElect, CloseStore], err)))))))"

text \<open>\<open>main\<close>: what is printed before the process exits with status 1, if it does.\<close>

definition server_main ::
  "('x, 'v) etcd_api \<Rightarrow> startup \<Rightarrow> raw_db \<Rightarrow> raw_db \<times> proc_step list \<times> string option" where
  "server_main api su d = (case server_process api su d of
      (d', steps, None) \<Rightarrow> (d', steps, None)
    | (d', steps, Some err) \<Rightarrow> (d', steps, Some (''[Server] '' @ errorString (sql_msg (su_engine su)) err)))"

section \<open>The producer\<close>

text \<open>\<open>os.Args\<close>: the message it exits with, or the type and the number of jobs.\<close>

definition producer_args :: "string list \<Rightarrow> string + string \<times> int" where
  "producer_args argv = (let jobType = (if length argv > 1 then argv ! 1 else ''normal'') in
     if length argv > 2 then
       (case strconv_Atoi (argv ! 2) of
          None \<Rightarrow> Inl ''count must be a positive integer''
        | Some n \<Rightarrow> if n < 1 then Inl ''count must be a positive integer'' else Inr (jobType, n))
     else Inr (jobType, 3))"

definition payload :: "string \<Rightarrow> int \<Rightarrow> string" where
  \<open>payload jobType i = ''{"demo": "'' @ jobType @ ''", "seq": '' @ format_d i @ ''}''\<close>

definition producer_request :: "string \<Rightarrow> int \<Rightarrow> EnqueueRequest" where
  "producer_request jobType i = \<lparr>req_Job = Some \<lparr>job_Id = '''', job_Type = jobType,
     job_Payload = payload jobType i, job_Status = '''', job_Error = '''', job_RetryCount = 0,
     job_MaxRetries = 0\<rparr>\<rparr>"

datatype producer_line = NetworkError int goerror | ServerRejected int string | Enqueued int string

text \<open>The loop; \<open>enq\<close> is \<open>client.Enqueue\<close>. After a job that was enqueued it sleeps for 300 ms.\<close>

function inject :: "('s \<Rightarrow> EnqueueRequest \<Rightarrow> 's \<times> (goerror + EnqueueResponse)) \<Rightarrow> string \<Rightarrow> int \<Rightarrow> int \<Rightarrow>
    's \<Rightarrow> 's \<times> producer_line list" where
  "inject enq jobType count i s = (if i \<le> count
     then (case enq s (producer_request jobType i) of (s', res) \<Rightarrow>
       let line = (case res of
             Inl err \<Rightarrow> NetworkError i err
           | Inr resp \<Rightarrow> if resp_Error resp \<noteq> '''' then ServerRejected i (resp_Error resp)
                         else Enqueued i (resp_JobId resp)) in
       case inject enq jobType count (i + 1) s' of (s'', lines) \<Rightarrow> (s'', line # lines))
     else (s, []))"
  by pat_completeness auto

termination inject
  by (relation "measure (\<lambda>(enq, jobType, count, i, s). nat (count + 1 - i))") auto

declare inject.simps [simp del]

text \<open>How \<open>main\<close> ends; \<open>dial\<close> is \<open>grpc.NewClient\<close>.\<close>

datatype 's producer_end = ExitOne string | Panics | Finished 's "producer_line list"

definition producer_main :: "environ \<Rightarrow> (string \<Rightarrow> goerror option) \<Rightarrow>
    ('s \<Rightarrow> EnqueueRequest \<Rightarrow> 's \<times> (goerror + EnqueueResponse)) \<Rightarrow> string list \<Rightarrow> 's \<Rightarrow> 's producer_end" where
  "producer_main getenv dial enq argv s = (case producer_args argv of
      Inl m \<Rightarrow> ExitOne m
    | Inr (jobType, count) \<Rightarrow> (case ServerAddr getenv of
        None \<Rightarrow> Panics
      | Some addr \<Rightarrow> (case dial addr of
          Some err \<Rightarrow> ExitOne (''[Producer] Fatal: Could not connect to server: '' @ errorString (\<lambda>_. '''') err)
        | None \<Rightarrow> (case inject enq jobType count 1 s of (s', lines) \<Rightarrow> Finished s' lines))))"

section \<open>The fence probe\<close>

definition probe_args :: "string list \<Rightarrow> string + string \<times> string" where
  "probe_args argv = (if length argv \<noteq> 3 then Inl ''usage: fenceprobe <job-id> <impersonated-worker-id>''
     else Inr (argv ! 1, argv ! 2))"

definition probe_sends :: "string \<Rightarrow> string \<Rightarrow> WorkerMessage list" where
  "probe_sends jobID workerID = [WorkerMessage_Hello \<lparr>hello_WorkerId = workerID\<rparr>,
     WorkerMessage_Completed \<lparr>completed_JobId = jobID\<rparr>]"

datatype recv = RecvEOF | RecvErr goerror | RecvMsg ServerMessage

datatype verdict = StreamClosed | RpcError goerror | RejectedByFence string | CompletionAccepted | ProbePanics

definition printVerdict :: "Result \<Rightarrow> verdict" where
  "printVerdict r = (if result_Outcome r = OUTCOME_REFUSED then RejectedByFence (result_Error r)
     else CompletionAccepted)"

text \<open>\<open>m.Assigned.GetJob().GetId()\<close>.\<close>

definition assigned_id :: "Assigned \<Rightarrow> string" where
  "assigned_id a = (case assigned_Job a of None \<Rightarrow> '''' | Some j \<Rightarrow> job_Id j)"

text \<open>
  The loop over what the stream delivers, \<^const>\<open>None\<close> as long as the verdict has not come. Slicing
  an identifier of less than eight bytes panics.
\<close>

fun probe_loop :: "recv list \<Rightarrow> verdict option" where
  "probe_loop [] = None"
| "probe_loop (RecvEOF # rs) = Some StreamClosed"
| "probe_loop (RecvErr err # rs) = Some (RpcError err)"
| "probe_loop (RecvMsg msg # rs) = (case msg of
      ServerMessage_Assigned m \<Rightarrow> if length (assigned_id m) < 8 then Some ProbePanics else probe_loop rs
    | ServerMessage_Lost m \<Rightarrow> probe_loop rs
    | ServerMessage_Result m \<Rightarrow> Some (printVerdict m)
    | ServerMessage_Unset \<Rightarrow> probe_loop rs)"

text \<open>
  The whole command: what it has sent, and how it ends; a call that fails before the loop makes
  it exit with a message. The ten seconds of the context show as an error of \<open>Recv\<close>.
\<close>

datatype probe_end = ProbeExits string | ProbeCrashes | ProbeWaits | ProbeReports verdict

definition fenceprobe :: "environ \<Rightarrow> (string \<Rightarrow> goerror option) \<Rightarrow> goerror option \<Rightarrow> goerror option \<Rightarrow>
    goerror option \<Rightarrow> recv list \<Rightarrow> string list \<Rightarrow> WorkerMessage list \<times> probe_end" where
  "fenceprobe getenv dial open_err hello_err complete_err rs argv =
     (let text = errorString (\<lambda>_. '''') in case probe_args argv of
        Inl usage \<Rightarrow> ([], ProbeExits usage)
      | Inr (jobID, workerID) \<Rightarrow> (case ServerAddr getenv of
          None \<Rightarrow> ([], ProbeCrashes)
        | Some addr \<Rightarrow> (case dial addr of
            Some err \<Rightarrow> ([], ProbeExits (''dial: '' @ text err))
          | None \<Rightarrow> (case open_err of
              Some err \<Rightarrow> ([], ProbeExits (''open stream: '' @ text err))
            | None \<Rightarrow> (case hello_err of
                Some err \<Rightarrow> ([], ProbeExits (''hello: '' @ text err))
              | None \<Rightarrow> (case complete_err of
                  Some err \<Rightarrow> (take 1 (probe_sends jobID workerID), ProbeExits (''complete: '' @ text err))
                | None \<Rightarrow> (probe_sends jobID workerID, (case probe_loop rs of
                    None \<Rightarrow> ProbeWaits | Some v \<Rightarrow> ProbeReports v))))))))"

section \<open>What the server process guarantees\<close>

lemma run_listening_cases:
  "run_listening su = (steps, err) \<Longrightarrow>
     (\<exists>rest. steps = RunLeadership # ListenOn (ListenAddr (su_getenv su)) # rest \<and>
        (err \<noteq> None \<and> set rest \<subseteq> {Serve}
       \<or> err = None \<and> rest = Serve # gracefulStop (su_drained su) @ [AwaitStopped]))"
  by (auto simp: run_listening_def Let_def split: option.splits)

lemma gracefulStop_set: "set (gracefulStop b) \<subseteq> {GracefulStop, ForceStop}"
  by (simp add: gracefulStop_def)

definition elect_matches :: "environ \<Rightarrow> chosen \<Rightarrow> bool" where
  "elect_matches getenv c = (case c of
      ChosePostgres pe \<Rightarrow> EtcdEndpoints getenv = [] \<and> pe_lease pe = leaseFor \<and> pe_renewEvery pe = 10 * second
    | ChoseEtcd ee \<Rightarrow> EtcdEndpoints getenv \<noteq> [] \<and> ee_ttl ee = 30 \<and> ee_key ee = electionKey)"

lemma newElection_matches:
  "newElection api getenv uuid q leaseFor = Inr c \<Longrightarrow> elect_matches getenv c"
  by (auto simp: newElection_def elect_matches_def NewPostgresElection_def NewEtcdElection_def
      newEtcdElection_def leaseFor_def second_def go_div_def Let_def split: if_splits sum.splits option.splits)


definition su1 :: startup where
  "su1 = \<lparr>su_getenv = (\<lambda>n. if n = PostgresDSNEnv then ''dsn'' else ''''), su_open_err = None,
     su_calls = (call_at 1, call_at 2, call_at 3), su_engine = seq_engine, su_uuid = ''node-one-uuid'',
     su_listen_err = None, su_serve_err = None, su_drained = False\<rparr>"

definition raw_empty :: raw_db where
  "raw_empty = \<lparr>raw_jobs = None, raw_leadership = None\<rparr>"


section \<open>What the producer sends\<close>

lemma inject_fold:
  "fst (inject enq ty n i s) = foldl (\<lambda>s k. fst (enq s (producer_request ty k))) s [i..n]
   \<and> length (snd (inject enq ty n i s)) = nat (n + 1 - i)"
proof (induction enq ty n i s rule: inject.induct)
  case (1 enq ty n i s)
  obtain s' res where call: "enq s (producer_request ty i) = (s', res)" by fastforce
  show ?case
  proof (cases "i \<le> n")
    case True
    with 1 [OF True call [symmetric]] call show ?thesis
      by (subst (1 2) inject.simps) (auto simp: Let_def upto_rec1 split: prod.splits)
  next
    case False
    then show ?thesis by (subst (1 2) inject.simps) simp
  qed
qed

lemma payload_inj: "payload ty i = payload ty j \<Longrightarrow> i = j"
  by (auto simp: payload_def dest: format_d_inj)



end
