(* ===== verification/Spec2Isabelle.thy ===== *)
theory Spec2Isabelle
  imports Cluster Integrity Job_Progress Commands
begin

text \<open>
  \<^bold>\<open>distq: a distributed job queue.\<close> Producers enqueue jobs over gRPC; servers keep them in
  PostgreSQL; one server at a time leads, pushes jobs down the streams of connected workers
  and returns the jobs of dead workers to the queue; workers renew a lease while they work
  and report the outcome. This development models the whole path from the SQL statements to
  the worker's goroutines and proves what each part promises to the next.

  \<^bold>\<open>How the parts fit.\<close> \<open>internal/storage\<close> is the only shared state. \<open>internal/queue\<close> adds
  policy (lease, retry delay). \<open>internal/server\<close> has the elections, the leadership loop, the
  dispatcher and the gRPC handlers. \<open>cmd/worker\<close>, \<open>cmd/producer\<close> and \<open>tools/fenceprobe\<close> are clients,
  \<open>cmd/distq\<close> is the server process, \<open>internal/config\<close> reads the settings.

  \<^bold>\<open>Theories, in the order of the code.\<close>

    \<^item> \<open>Distq_Prelude\<close>: Go durations, integer division and errors, what a database call may meet
      (a failure before or after the commit, the clock, rows locked by others), tables as lists
      of rows. \<open>Wire\<close>: the messages of \<open>internal/pb\<close>. \<open>Store_Rows\<close>: the two tables and what is
      left to the database engine, as a parameter \<open>engine\<close> with the hypothesis \<open>engine_ok\<close>.
    \<^item> \<open>Postgres_Jobs\<close>, \<open>Postgres_Leadership\<close> (\<open>storage/postgres.go\<close>): each statement as a function on
      the tables and each Go method around it, errors included; schema, migration and backfill.
    \<^item> \<open>Job_Lifecycle\<close>, \<open>Job_Invariants\<close>: every operation of the \<open>Store\<close> interface as one step of
      each row (\<open>row_step\<close>), and the invariants \<open>job_ok\<close>, \<open>db_ok\<close> by rule induction.
      \<open>Store_Behaviour\<close>: what each operation does, branch by branch. \<open>Job_Guarantees\<close>: the abstract
      job (\<open>ajob\<close>) the store refines, bounded attempts, fencing of zombie workers, recovery after a
      crash, the typing of a claimed job. \<open>Job_Progress\<close>: a measure of the work left, by which every
      run without new jobs comes to an end. \<open>Leader_Guarantees\<close>: one leader per lease, increasing terms, opening a store. \<open>Samples\<close>:
      the concrete rows the theorems are applied to.
    \<^item> \<open>Queue_Policy\<close> (\<open>queue/queue.go\<close>): defaults and delegation, with the contract of a lease store
      as a locale, interpreted on the store's operations.
    \<^item> \<open>Leadership_State\<close>, \<open>Elections\<close> (\<open>server/leadership.go\<close>, \<open>server/election.go\<close>): the struct and its
      contexts, the loop \<open>Run\<close> over any \<open>Election\<close>, the PostgreSQL election. \<open>Election_Guarantees\<close>: the
      contract of an election as a locale, what the loop guarantees under it, the PostgreSQL
      instance. \<open>Etcd_Election\<close> (\<open>server/election_etcd.go\<close>): the etcd instance; the etcd client is a
      parameter \<open>etcd_api\<close> with the hypothesis \<open>etcd_ok\<close> that revisions only grow.
    \<^item> \<open>Dispatcher\<close>, \<open>Dispatch_Guarantees\<close> (\<open>server/dispatcher.go\<close>): the line of waiting workers, the
      passes that claim and deliver, the timer.
    \<^item> \<open>Job_Stream\<close>, \<open>Stream_Guarantees\<close> (\<open>server/stream.go\<close>, \<open>server/server.go\<close>): \<open>Enqueue\<close>, the greeting,
      the answers to a worker and the turns of its stream. \<open>Server_Node\<close>: a server as the
      interleaving \<open>server_step\<close> of its streams, its calls, its timer, its leadership and the
      operations of other nodes; its invariant and its refinement of the store. What its streams
      and calls do is the relation \<open>serving_step\<close>, with the locale \<open>served_ops\<close> for the class of store
      operations that the environment and the server keep to.
    \<^item> \<open>Cluster\<close>: any number of servers on one database, each with its loop \<open>Run\<close> at the grain of single
      calls and critical sections (\<open>cluster_step\<close>), with crashes and restarts; the invariant that ties
      each reign to a term won and to the leadership row, and the refinement of a node to a server.
    \<^item> \<open>Config\<close> (\<open>config/config.go\<close>), \<open>Strconv\<close> (what is used of \<open>strconv\<close> and \<open>fmt\<close>).
    \<^item> \<open>Worker\<close>, \<open>Worker_Guarantees\<close> (\<open>cmd/worker/main.go\<close>): the interleaving \<open>worker_step\<close> of the read
      loop, the handlers and the heartbeats, and the choice of the server; its steps are labelled with
      what others see of them. \<open>Delivery\<close>: server and worker together, from the claimed row to the
      handler and from its end to the settled row.
    \<^item> \<open>Whole_System\<close>: a server, the other nodes on its database and any number of workers as one
      relation \<open>system_step\<close>, with crashes and restarts: a worker receives only what has been sent to
      it, a completion comes only from a worker that has sent it (\<open>honest\<close>, an instance of
      \<open>served_ops\<close>); the invariant \<open>system_ok\<close>. \<open>Integrity\<close>: what it gives from end to end, and a full
      run from an enqueued job to the done row.
    \<^item> \<open>Commands\<close> (\<open>cmd/distq\<close>, \<open>cmd/producer\<close>, \<open>tools/fenceprobe\<close>): the server process as the sequence of
      what it opens, starts, awaits and closes; the producer's loop; the probe from its arguments to its verdict.
    \<^item> This theory: the properties that span components, the worker's heartbeats against the
      server's lease and the probe against the server's answers.

  \<^bold>\<open>State and effects.\<close> The database is a value passed through every operation. A call that
  fails says whether it took effect. Before each call of a server the environment may have run
  any operations of other nodes (\<open>env_before\<close>). A mutex-protected section is one step. Contexts
  are numbers with the set of cancelled ones; delivery channels are lists with capacity one, so
  a send that blocks is a result of its own. A blocking call is given the list of what it meets
  and returns \<^const>\<open>None\<close> as long as it has not returned: lists are the fuel of the loops that need
  not end, and the liveness theorems say which lists make them return. All other loops are
  recursions with a termination proof.

  \<^bold>\<open>What is shown.\<close> For jobs: the store refines a small state machine per job, attempts are
  bounded by \<open>max_retries + 1\<close>, a settled job stays settled, only the holder of a lease can
  report, and reports are answered truthfully and once, and the moves of any run without new jobs
  are bounded. For leadership: at most one leader per lease with either mechanism's terms
  increasing, no two nodes of a cluster ever lead with the same term and the one with the older
  term steps down at its next tick, a leader that renews in time stays, a free leadership is won
  at the next poll, a clean shutdown hands over. For dispatch: waiting workers
  are served in order, a due job is never left without a timer, no send blocks while the line is
  in order. For the server: its database is only changed by store operations, and its streams
  end with their reign. For the worker: a lost job is stopped and no other, every server is
  tried; a job sent starts the attempt the database counts, and a success is a job done for good.
  For the system: what is done has been worked on successfully by a worker it was sent to, and
  what workers work on is what was enqueued.
  The properties and lemmas also include where the code falls short: a deposed leader's claim lands,
  a late heartbeat hangs the dispatcher, a reconnecting worker loses its place, an address
  list of commas panics.

  \<^bold>\<open>Not modelled.\<close> The gRPC runtime and the generated bindings beyond the message types; TCP and
  process signals except as events; the text of log lines except where it is the result; time
  spent (durations are computed, not waited); tests. A cluster of nodes under etcd is modelled as
  single nodes whose environment is the others. Database sessions are serialised as
  PostgreSQL serialises single statements on a row; the order in which \<open>LIMIT 1\<close> picks among
  visible rows is left open (\<open>pick\<close>). A float conversion out of range is left open (\<open>float_ovf\<close>).
\<close>

section \<open>Heartbeats and leases\<close>

lemma int32_seconds:
  assumes "second \<le> Queue_LeaseFor q" and "fits32 (Queue_LeaseFor q div second)"
  shows "sint (assigned_LeaseSeconds (assignment q job)) = Queue_LeaseFor q div second"
    and "1 \<le> Queue_LeaseFor q div second"
proof -
  have pos: "0 < second" by (simp add: second_def)
  with assms(1) have "go_div (Queue_LeaseFor q) second = Queue_LeaseFor q div second"
    by (simp add: go_div_nonneg)
  with assms(2) show "sint (assigned_LeaseSeconds (assignment q job)) = Queue_LeaseFor q div second"
    by (simp add: assignment_def float_to_int32_def sint_of_fits32 del: of_int_sint)
  show "1 \<le> Queue_LeaseFor q div second"
    using pos assms(1) by (simp add: pos_imp_zdiv_pos_iff int_one_le_iff_zero_less)
qed

text \<open>
  C28: The lease the dispatcher announces is one the worker can keep: for a lease of whole
  seconds and up, at most what 32 bits can count, the worker's heartbeats come at a positive
  interval and at least three times within the lease the server granted. A lease of less than
  a second is announced as zero, and the worker then assumes its default and beats every ten
  seconds, which is too late.
\<close>

theorem heartbeats_in_time:
  assumes "0 < Queue_LeaseFor q" and "fits32 (Queue_LeaseFor q div second)"
    and "interval = beat_interval (work_lease (assigned_LeaseSeconds (assignment q job)))"
  shows "if second \<le> Queue_LeaseFor q
     then 0 < interval \<and> 3 * interval \<le> Queue_LeaseFor q
     else interval = 10 * second \<and> Queue_LeaseFor q < interval"
proof (cases "second \<le> Queue_LeaseFor q")
  case True
  define k where "k = Queue_LeaseFor q div second"
  note secs = int32_seconds(1) [OF True assms(2), where job = job, folded k_def]
    int32_seconds(2) [OF True assms(2), folded k_def]
  have pos: "0 < second" "3 \<le> second" by (simp_all add: second_def)
  have "work_lease (assigned_LeaseSeconds (assignment q job)) = k * second"
    using secs pos by (simp add: work_lease_def Let_def mult_le_0_iff)
  moreover have "3 \<le> k * second" using secs(2) pos mult_mono [of 1 k 3 second] by simp
  then have "go_div (k * second) 3 = k * second div 3" "0 < k * second div 3"
    by (simp_all add: go_div_nonneg pos_imp_zdiv_pos_iff)
  ultimately have "interval = k * second div 3" "0 < interval"
    using assms(3) by (simp_all add: beat_interval_def Let_def)
  moreover have "3 * (k * second div 3) \<le> k * second" by simp
  moreover have "k * second \<le> Queue_LeaseFor q"
    by (simp add: k_def minus_mod_eq_div_mult [symmetric] second_def)
  ultimately show ?thesis using True by simp
next
  case False
  with assms(1) have "go_div (Queue_LeaseFor q) second = 0" by (simp add: go_div_nonneg second_def)
  then have none: "assigned_LeaseSeconds (assignment q job) = 0"
    by (simp add: assignment_def float_to_int32_def fits32_def)
  have "interval = 10 * second"
    by (simp add: assms(3) none work_lease_def beat_interval_def defaultLeaseFor_def second_def go_div_def)
  with False show ?thesis by (simp add: second_def)
qed

theorem heartbeats_in_time_witness:
  "3 * beat_interval (work_lease (assigned_LeaseSeconds (assignment queue1 job_a))) \<le> 30 * second"
proof -
  have "0 < Queue_LeaseFor queue1" "fits32 (Queue_LeaseFor queue1 div second)" "second \<le> Queue_LeaseFor queue1"
      "Queue_LeaseFor queue1 = 30 * second"
    by (simp_all add: Queue_LeaseFor_def queue1_def DefaultLeaseFor_def second_def fits32_def)
  with heartbeats_in_time [OF _ _ refl, of queue1 job_a] show ?thesis by simp
qed

section \<open>The fence probe against the server\<close>

lemma probe_loop_noise:
  "list_all (\<lambda>m. (\<exists>l. m = ServerMessage_Lost l) \<or>
       (\<exists>a. m = ServerMessage_Assigned a \<and> 8 \<le> length (assigned_id a))) noise \<Longrightarrow>
     probe_loop (map RecvMsg noise @ rs) = probe_loop rs"
  by (induction noise) auto



end
